theory Spec2Isabelle
  imports Main "HOL-Library.Sublist" "HOL-Library.AList"
begin

section \<open>The Drive folder monitor: data model\<close>

text \<open>
  The server (\<^verbatim>\<open>src/unnamed/part_000\<close>) keeps three pieces of module state:
  \<^verbatim>\<open>fileStore\<close> (the files last seen in the scan and quarantine folders),
  \<^verbatim>\<open>scanStore\<close> (the scan record of each file id) and \<^verbatim>\<open>scanningJobs\<close>
  (the ids whose simulated scan sequence is running). Node runs the handlers on one
  thread, one at a time up to the next \<^verbatim>\<open>await\<close>. Each handler (a poll, a timer
  callback, a request of a client) is modelled as a function from the state before to
  the state after, with the answers of the Drive API and the readings of the clock as
  inputs; a handler that awaits Drive is taken to resume before any other handler
  runs. The order in which polls, timers and requests arrive is left open: it is a
  list of inputs.

  A file's \<^verbatim>\<open>modifiedTime\<close> is the RFC 3339 string Drive returns, always in the
  same UTC millisecond format; it is modelled by the instant it denotes (milliseconds
  since the epoch), so that \<^verbatim>\<open>!==\<close> on the strings is \<open>\<noteq>\<close> on the instants and
  \<^verbatim>\<open>new Date(b) - new Date(a)\<close> is a subtraction. A missing (falsy) value is \<open>None\<close>.

  A file name is a JavaScript string: a list of UTF-16 code units, each a number below
  65536. Ids of files and folders are ASCII and written as string literals.
\<close>

type_synonym file_id = string
type_synonym folder_id = string
type_synonym iso_time = string
type_synonym code_unit = nat
type_synonym js_string = "code_unit list"

text \<open>A string literal of the source, as its code units.\<close>

definition units :: "string \<Rightarrow> js_string" where
  "units s = map of_char s"

datatype source_tag = scan | quarantine

record FileRecord =
  id' :: file_id
  name :: js_string
  mimeType :: string
  size' :: string
  modifiedTime :: "int option"
  webViewLink :: "string option"
  webContentLink :: "string option"
  md5Checksum :: "string option"
  source :: source_tag

datatype scan_status = pending | scanning | clean | infected

record scan_record =
  status :: scan_status
  lastScannedAt :: "iso_time option"

text \<open>What Drive answers: a file resource, and the \<^verbatim>\<open>id, parents, name\<close> projection.\<close>

record drive_file =
  df_id :: file_id
  df_name :: js_string
  df_mimeType :: string
  df_size :: "string option"
  df_modifiedTime :: "int option"
  df_webViewLink :: "string option"
  df_webContentLink :: "string option"
  df_md5Checksum :: "string option"

record drive_meta =
  parents :: "folder_id list option"
  meta_name :: js_string

text \<open>
  The Drive API as the handlers see it: every request either throws (\<open>Inl\<close> of the
  error message the \<^verbatim>\<open>catch\<close> block extracts) or answers.
\<close>

record drive =
  files_list :: "folder_id \<Rightarrow> string + drive_file list"
  files_get :: "file_id \<Rightarrow> string + drive_meta"
  files_update :: "file_id \<Rightarrow> folder_id \<Rightarrow> string option \<Rightarrow> string + folder_id list option"
  files_get_metadata :: "file_id \<Rightarrow> string + drive_file"
  files_delete :: "file_id \<Rightarrow> string + unit"

datatype drive_call =
    list_call folder_id
  | get_call file_id
  | update_call file_id folder_id "string option"
  | get_metadata_call file_id
  | delete_call file_id

text \<open>
  The process environment: the two folder ids (\<open>None\<close> when the variable is unset) and
  two built-in functions of the host that the code calls and the repository does not
  hold: \<^verbatim>\<open>String.prototype.localeCompare\<close>, which depends on the locale, and
  \<^verbatim>\<open>String.prototype.toLowerCase\<close>, which follows the case tables of Unicode.
\<close>

record env =
  SCAN_FOLDER_ID :: "folder_id option"
  QUARANTINE_FOLDER_ID :: "folder_id option"
  localeCompare :: "js_string \<Rightarrow> js_string \<Rightarrow> int"
  toLowerCase :: "js_string \<Rightarrow> js_string"

text \<open>Truthiness of an optional string: \<^verbatim>\<open>undefined\<close>, \<^verbatim>\<open>null\<close> and \<^verbatim>\<open>''\<close> are falsy.\<close>

fun truthy :: "string option \<Rightarrow> bool" where
  "truthy None = False"
| "truthy (Some s) = (s \<noteq> [])"

text \<open>
  The events the server emits, without their timestamps and message texts.
  \<^verbatim>\<open>io.emit\<close> goes to \<open>all_clients\<close>, \<^verbatim>\<open>socket.emit\<close> to the \<open>requester\<close>.
\<close>

datatype audience = all_clients | requester

datatype message =
    file_list "(FileRecord \<times> scan_record) list" "nat \<times> nat \<times> nat"
  | scan_complete file_id scan_status
  | file_moved file_id folder_id "bool option"
  | scan_alert file_id string
  | move_failed "file_id option" string
  | delete_failed file_id string
  | file_deleted file_id

text \<open>The callbacks waiting in \<^verbatim>\<open>setTimeout\<close>: the scanning dwell and the pending dwell.\<close>

datatype timer = scanning_dwell file_id | pending_dwell file_id

fun timer_file :: "timer \<Rightarrow> file_id" where
  "timer_file (scanning_dwell i) = i"
| "timer_file (pending_dwell i) = i"

text \<open>
  The state of the server: the three stores, the authorization flag, the timers that
  wait, and two logs that only grow, of the events emitted and of the requests sent to
  Drive.
\<close>

record state =
  fileStore :: "FileRecord list"
  scanStore :: "file_id \<rightharpoonup> scan_record"
  scanningJobs :: "file_id set"
  isAuthorized :: bool
  timers :: "timer list"
  emitted :: "(audience \<times> message) list"
  driveCalls :: "drive_call list"

section \<open>The verdict: \<^verbatim>\<open>isEicarish\<close>\<close>

text \<open>
  The loop \<^verbatim>\<open>for (let i = 0; i < s.length && idx < target.length; i++)\<close> with its
  two counters.
\<close>

function eicar_loop :: "js_string \<Rightarrow> js_string \<Rightarrow> nat \<Rightarrow> nat \<Rightarrow> nat" where
  "eicar_loop s target i idx =
     (if i < length s \<and> idx < length target
      then eicar_loop s target (Suc i) (if s ! i = target ! idx then Suc idx else idx)
      else idx)"
  by pat_completeness auto
termination
  by (relation "measure (\<lambda>(s, target, i, idx). length s - i)") auto

declare eicar_loop.simps [simp del]

definition isEicarish :: "env \<Rightarrow> js_string \<Rightarrow> bool" where
  "isEicarish e filename =
     (if filename = [] then False
      else (let s = toLowerCase e filename; target = units ''eicar''
            in eicar_loop s target 0 0 = length target))"

text \<open>\<^verbatim>\<open>const finalStatus = infected ? 'infected' : 'clean'\<close>, of the file's name.\<close>

definition finalStatus :: "env \<Rightarrow> js_string \<Rightarrow> scan_status" where
  "finalStatus e nm = (if isEicarish e nm then infected else clean)"

section \<open>The client view and the broadcast\<close>

definition filesForClients :: "state \<Rightarrow> (FileRecord \<times> scan_record) list" where
  "filesForClients s =
     map (\<lambda>f. (f, case scanStore s (id' f) of
                     Some r \<Rightarrow> r
                   | None \<Rightarrow> \<lparr>status = (if source f = quarantine then infected else pending),
                               lastScannedAt = None\<rparr>))
         (fileStore s)"

text \<open>The update of the sheet that follows the emit is outside the model.\<close>

definition emitFileList :: "nat \<times> nat \<times> nat \<Rightarrow> state \<Rightarrow> state" where
  "emitFileList chg s =
     s\<lparr>emitted := emitted s @ [(all_clients, file_list (filesForClients s) chg)]\<rparr>"

section \<open>Listing the two folders\<close>

text \<open>
  A JavaScript \<^verbatim>\<open>Map\<close> keeps its keys in the order of their first insertion and the
  value of the last: \<^const>\<open>AList.update\<close> on a list of entries.
\<close>

definition Map_of_entries :: "('k \<times> 'v) list \<Rightarrow> ('k \<times> 'v) list" where
  "Map_of_entries es = foldl (\<lambda>m (k, v). AList.update k v m) [] es"

definition Map_has :: "('k \<times> 'v) list \<Rightarrow> 'k \<Rightarrow> bool" where
  "Map_has m k = (k \<in> fst ` set m)"

text \<open>
  \<^verbatim>\<open>Array.prototype.sort\<close> is stable; with a consistent comparator every stable sort
  gives the same array, and insertion from the right is one.
\<close>

fun insert_sorted :: "('a \<Rightarrow> 'a \<Rightarrow> int) \<Rightarrow> 'a \<Rightarrow> 'a list \<Rightarrow> 'a list" where
  "insert_sorted cmp x [] = [x]"
| "insert_sorted cmp x (y # ys) =
     (if cmp x y \<le> 0 then x # y # ys else y # insert_sorted cmp x ys)"

definition js_sort :: "('a \<Rightarrow> 'a \<Rightarrow> int) \<Rightarrow> 'a list \<Rightarrow> 'a list" where
  "js_sort cmp xs = foldr (insert_sorted cmp) xs []"

text \<open>The comparator of \<^verbatim>\<open>listFiles\<close> and \<^verbatim>\<open>moveFileById\<close>.\<close>

definition compareFiles :: "env \<Rightarrow> FileRecord \<Rightarrow> FileRecord \<Rightarrow> int" where
  "compareFiles e a b =
     (case (modifiedTime a, modifiedTime b) of
        (Some ta, Some tb) \<Rightarrow> tb - ta
      | _ \<Rightarrow> localeCompare e (name b) (name a))"

text \<open>\<^verbatim>\<open>x || null\<close> on an optional string.\<close>

definition or_null :: "string option \<Rightarrow> string option" where
  "or_null x = (if truthy x then x else None)"

definition toFile :: "source_tag \<Rightarrow> drive_file \<Rightarrow> FileRecord" where
  "toFile sourceTag f =
     \<lparr>id' = df_id f, name = df_name f, mimeType = df_mimeType f,
      size' = (if truthy (df_size f) then the (df_size f) else ''0''),
      modifiedTime = df_modifiedTime f,
      webViewLink = df_webViewLink f,
      webContentLink = or_null (df_webContentLink f),
      md5Checksum = or_null (df_md5Checksum f),
      source = sourceTag\<rparr>"

definition listFilesInFolder ::
  "drive \<Rightarrow> folder_id \<Rightarrow> source_tag \<Rightarrow> state \<Rightarrow> (string + FileRecord list) \<times> state" where
  "listFilesInFolder drv folderId sourceTag s =
     (let s' = s\<lparr>driveCalls := driveCalls s @ [list_call folderId]\<rparr> in
      case files_list drv folderId of
        Inl err \<Rightarrow> (Inl err, s')
      | Inr files \<Rightarrow> (Inr (map (toFile sourceTag) files), s'))"

text \<open>The body of \<^verbatim>\<open>listFiles\<close> once both listings have arrived.\<close>

definition mergeListings :: "env \<Rightarrow> FileRecord list \<Rightarrow> FileRecord list \<Rightarrow> FileRecord list" where
  "mergeListings e scanFiles quarantineFiles =
     (let m = Map_of_entries (map (\<lambda>f. (id' f, f)) (scanFiles @ quarantineFiles))
      in js_sort (compareFiles e) (map snd m))"

definition listFiles :: "env \<Rightarrow> drive \<Rightarrow> state \<Rightarrow> (string + FileRecord list) \<times> state" where
  "listFiles e drv s =
     (case (if truthy (SCAN_FOLDER_ID e)
            then listFilesInFolder drv (the (SCAN_FOLDER_ID e)) scan s
            else (Inr [], s)) of
        (Inl err, s1) \<Rightarrow> (Inl err, s1)
      | (Inr scanFiles, s1) \<Rightarrow>
          (case (if truthy (QUARANTINE_FOLDER_ID e)
                 then listFilesInFolder drv (the (QUARANTINE_FOLDER_ID e)) quarantine s1
                 else (Inr [], s1)) of
             (Inl err, s2) \<Rightarrow> (Inl err, s2)
           | (Inr quarantineFiles, s2) \<Rightarrow> (Inr (mergeListings e scanFiles quarantineFiles), s2)))"

section \<open>Change detection\<close>

record changes =
  added :: "FileRecord list"
  modified :: "FileRecord list"
  deleted :: "FileRecord list"
  hasChanges :: bool

text \<open>The body of the first loop, over the entries of \<^verbatim>\<open>newFileMap\<close>.\<close>

definition detect_new ::
  "(file_id \<times> FileRecord) list \<Rightarrow> file_id \<times> FileRecord \<Rightarrow>
   changes \<times> (file_id \<rightharpoonup> scan_record) \<Rightarrow> changes \<times> (file_id \<rightharpoonup> scan_record)" where
  "detect_new oldFileMap entry acc =
     (case (entry, acc) of ((i, f), (ch, st)) \<Rightarrow>
        if \<not> Map_has oldFileMap i
        then (ch\<lparr>added := added ch @ [f], hasChanges := True\<rparr>, st)
        else (case map_of oldFileMap i of
                None \<Rightarrow> (ch, st)
              | Some oldFile \<Rightarrow>
                  if modifiedTime oldFile \<noteq> modifiedTime f \<or> source oldFile \<noteq> source f
                  then (ch\<lparr>modified := modified ch @ [f], hasChanges := True\<rparr>, st(i := None))
                  else (ch, st)))"

text \<open>The body of the second loop, over the entries of \<^verbatim>\<open>oldFileMap\<close>.\<close>

definition detect_old ::
  "(file_id \<times> FileRecord) list \<Rightarrow> file_id \<times> FileRecord \<Rightarrow>
   changes \<times> (file_id \<rightharpoonup> scan_record) \<Rightarrow> changes \<times> (file_id \<rightharpoonup> scan_record)" where
  "detect_old newFileMap entry acc =
     (case (entry, acc) of ((i, f), (ch, st)) \<Rightarrow>
        if \<not> Map_has newFileMap i
        then (ch\<lparr>deleted := deleted ch @ [f], hasChanges := True\<rparr>, st(i := None))
        else (ch, st))"

definition detectChanges :: "FileRecord list \<Rightarrow> state \<Rightarrow> changes \<times> state" where
  "detectChanges newFiles s =
     (let changes0 = \<lparr>added = [], modified = [], deleted = [], hasChanges = False\<rparr>;
          newFileMap = Map_of_entries (map (\<lambda>f. (id' f, f)) newFiles);
          oldFileMap = Map_of_entries (map (\<lambda>f. (id' f, f)) (fileStore s));
          acc1 = fold (detect_new oldFileMap) newFileMap (changes0, scanStore s);
          acc2 = fold (detect_old newFileMap) oldFileMap acc1
      in (fst acc2, s\<lparr>scanStore := snd acc2\<rparr>))"

section \<open>Moving a file between the folders\<close>

text \<open>
  What \<^verbatim>\<open>moveFileById\<close> resolves to: \<^verbatim>\<open>{success: true, unchanged: true, name}\<close>,
  \<^verbatim>\<open>{success: true, parents}\<close> or \<^verbatim>\<open>{success: false, error}\<close>.
\<close>

datatype move_result =
    success_unchanged js_string
  | success_moved "folder_id list option"
  | failure string

fun success :: "move_result \<Rightarrow> bool" where
  "success (success_unchanged n) = True"
| "success (success_moved ps) = True"
| "success (failure err) = False"

fun unchanged :: "move_result \<Rightarrow> bool" where
  "unchanged (success_unchanged n) = True"
| "unchanged (success_moved ps) = False"
| "unchanged (failure err) = False"

fun join_comma :: "string list \<Rightarrow> string" where
  "join_comma [] = []"
| "join_comma [x] = x"
| "join_comma (x # y # ys) = x @ '','' @ join_comma (y # ys)"

text \<open>\<^verbatim>\<open>Object.assign(existing, item)\<close> on the entry \<^verbatim>\<open>fileStore.find\<close> returned.\<close>

fun assign_first :: "file_id \<Rightarrow> FileRecord \<Rightarrow> FileRecord list \<Rightarrow> FileRecord list" where
  "assign_first i item [] = []"
| "assign_first i item (f # fs) = (if id' f = i then item # fs else f # assign_first i item fs)"

text \<open>The block \<^verbatim>\<open>if (SCAN_FOLDER_ID && targetFolderId === SCAN_FOLDER_ID)\<close>.\<close>

definition restoreToScan :: "env \<Rightarrow> drive \<Rightarrow> iso_time \<Rightarrow> file_id \<Rightarrow> state \<Rightarrow> state" where
  "restoreToScan e drv now fileId s =
     (let s1 = s\<lparr>driveCalls := driveCalls s @ [get_metadata_call fileId]\<rparr> in
      case files_get_metadata drv fileId of
        Inl errFetch \<Rightarrow> s1
      | Inr fileMeta \<Rightarrow>
          (let existing = find (\<lambda>f. id' f = fileId) (fileStore s1);
               item = toFile scan fileMeta;
               s2 = (case existing of
                       None \<Rightarrow> s1\<lparr>fileStore := js_sort (compareFiles e) (fileStore s1 @ [item])\<rparr>
                     | Some ex \<Rightarrow> s1\<lparr>fileStore := assign_first fileId item (fileStore s1)\<rparr>)
           in s2\<lparr>scanStore := (scanStore s2)(fileId \<mapsto>
                    \<lparr>status = clean, lastScannedAt = Some now\<rparr>)\<rparr>))"

definition moveFileById ::
  "env \<Rightarrow> drive \<Rightarrow> iso_time \<Rightarrow> file_id \<Rightarrow> folder_id \<Rightarrow> state \<Rightarrow> move_result \<times> state" where
  "moveFileById e drv now fileId targetFolderId s =
     (let s1 = s\<lparr>driveCalls := driveCalls s @ [get_call fileId]\<rparr> in
      case files_get drv fileId of
        Inl err \<Rightarrow> (failure err, s1)
      | Inr meta \<Rightarrow>
          (let currentParentsArray = (case parents meta of None \<Rightarrow> [] | Some ps \<Rightarrow> ps);
               currentParents = join_comma currentParentsArray
           in if targetFolderId \<in> set currentParentsArray
              then (success_unchanged (meta_name meta), s1)
              else
                (let removeParents = (if currentParents = [] then None else Some currentParents);
                     s2 = s1\<lparr>driveCalls := driveCalls s1 @
                                [update_call fileId targetFolderId removeParents]\<rparr>
                 in case files_update drv fileId targetFolderId removeParents of
                      Inl err \<Rightarrow> (failure err, s2)
                    | Inr resParents \<Rightarrow>
                        (let stillHasScanParent =
                               (case SCAN_FOLDER_ID e of
                                  None \<Rightarrow> False
                                | Some sid \<Rightarrow>
                                    sid \<in> set (case resParents of None \<Rightarrow> [] | Some ps \<Rightarrow> ps));
                             s3 = (if \<not> stillHasScanParent
                                   then s2\<lparr>fileStore := filter (\<lambda>f. id' f \<noteq> fileId) (fileStore s2)\<rparr>
                                   else s2);
                             s4 = (if truthy (QUARANTINE_FOLDER_ID e) \<and>
                                      Some targetFolderId = QUARANTINE_FOLDER_ID e
                                   then s3\<lparr>scanStore := (scanStore s3)(fileId \<mapsto>
                                          \<lparr>status = infected, lastScannedAt = Some now\<rparr>)\<rparr>
                                   else s3);
                             s5 = (if truthy (SCAN_FOLDER_ID e) \<and>
                                      Some targetFolderId = SCAN_FOLDER_ID e
                                   then restoreToScan e drv now fileId s4
                                   else s4)
                         in (success_moved resParents, s5)))))"

section \<open>The simulated scan sequence\<close>

text \<open>
  \<^verbatim>\<open>simulateScan\<close> up to its first \<^verbatim>\<open>setTimeout\<close>: the guard on \<^verbatim>\<open>scanningJobs\<close>,
  the status \<^verbatim>\<open>scanning\<close>, the broadcast, and the timer of the scanning dwell. The two
  dwells are random; the model leaves open when a waiting timer fires.
\<close>

definition simulateScan :: "file_id \<Rightarrow> state \<Rightarrow> state" where
  "simulateScan fileId s =
     (if fileId \<in> scanningJobs s then s
      else
        (let s1 = s\<lparr>scanningJobs := insert fileId (scanningJobs s)\<rparr>;
             s2 = s1\<lparr>scanStore := (scanStore s1)(fileId \<mapsto>
                      \<lparr>status = scanning, lastScannedAt = None\<rparr>)\<rparr>;
             s3 = emitFileList (0, 0, 0) s2
         in s3\<lparr>timers := timers s3 @ [scanning_dwell fileId]\<rparr>))"

text \<open>The callback of the scanning dwell: the intermediate \<^verbatim>\<open>pending\<close>.\<close>

definition scanningElapsed :: "file_id \<Rightarrow> state \<Rightarrow> state" where
  "scanningElapsed fileId s =
     (let s1 = s\<lparr>scanStore := (scanStore s)(fileId \<mapsto>
                    \<lparr>status = pending, lastScannedAt = None\<rparr>)\<rparr>;
          s2 = s1\<lparr>emitted := emitted s1 @ [(all_clients, scan_complete fileId pending)]\<rparr>;
          s3 = emitFileList (0, 0, 0) s2
      in s3\<lparr>timers := timers s3 @ [pending_dwell fileId]\<rparr>)"

text \<open>
  The callback of the pending dwell: the verdict, the automatic move, and in
  \<^verbatim>\<open>finally\<close> the release of \<^verbatim>\<open>scanningJobs\<close>. \<open>now\<close> is the clock at the verdict,
  \<open>moveNow\<close> the clock \<^verbatim>\<open>moveFileById\<close> reads.
\<close>

definition pendingElapsed ::
  "env \<Rightarrow> drive \<Rightarrow> iso_time \<Rightarrow> iso_time \<Rightarrow> file_id \<Rightarrow> state \<Rightarrow> state" where
  "pendingElapsed e drv now moveNow fileId s =
     (let fileObj = find (\<lambda>f. id' f = fileId) (fileStore s);
          nm = (case fileObj of Some f \<Rightarrow> name f | None \<Rightarrow> []);
          src = (case fileObj of Some f \<Rightarrow> source f | None \<Rightarrow> scan);
          infectedByName = isEicarish e nm;
          final = finalStatus e nm;
          s1 = s\<lparr>scanStore := (scanStore s)(fileId \<mapsto>
                    \<lparr>status = final, lastScannedAt = Some now\<rparr>)\<rparr>;
          s2 = s1\<lparr>emitted := emitted s1 @ [(all_clients, scan_complete fileId final)]\<rparr>;
          s3 = emitFileList (0, 0, 0) s2;
          s4 = (if infectedByName \<and> truthy (QUARANTINE_FOLDER_ID e) \<and> src \<noteq> quarantine
                then (case moveFileById e drv moveNow fileId (the (QUARANTINE_FOLDER_ID e)) s3 of
                        (moveResult, t) \<Rightarrow>
                          if success moveResult
                          then emitFileList (0, 0, 0)
                                 (t\<lparr>emitted := emitted t @
                                     [(all_clients,
                                       file_moved fileId (the (QUARANTINE_FOLDER_ID e)) None)]\<rparr>)
                          else t\<lparr>emitted := emitted t @
                                  [(all_clients, scan_alert fileId
                                     (case moveResult of
                                        failure err \<Rightarrow>
                                          if err = [] then ''Auto-quarantine failed'' else err
                                      | _ \<Rightarrow> ''Auto-quarantine failed''))]\<rparr>)
                else s3);
          s5 = (if \<not> infectedByName \<and> src = quarantine \<and> truthy (SCAN_FOLDER_ID e)
                then (case moveFileById e drv moveNow fileId (the (SCAN_FOLDER_ID e)) s4 of
                        (moveResult, t) \<Rightarrow>
                          if success moveResult
                          then emitFileList (0, 0, 0)
                                 (t\<lparr>emitted := emitted t @
                                     [(all_clients,
                                       file_moved fileId (the (SCAN_FOLDER_ID e)) None)]\<rparr>)
                          else t\<lparr>emitted := emitted t @
                                  [(all_clients, scan_alert fileId
                                     (case moveResult of
                                        failure err \<Rightarrow>
                                          if err = [] then ''Auto-restore failed'' else err
                                      | _ \<Rightarrow> ''Auto-restore failed''))]\<rparr>)
                else s4)
      in s5\<lparr>scanningJobs := scanningJobs s5 - {fileId}\<rparr>)"

section \<open>The reconciliation pass\<close>

text \<open>The body of \<^verbatim>\<open>toScan.forEach\<close>.\<close>

definition startScan :: "FileRecord \<Rightarrow> state \<Rightarrow> state" where
  "startScan f s =
     (let i = id' f in
      if i \<in> scanningJobs s then s
      else simulateScan i
             (s\<lparr>scanStore := (scanStore s)(i \<mapsto> \<lparr>status = scanning, lastScannedAt = None\<rparr>)\<rparr>))"

definition pollFolder :: "env \<Rightarrow> drive \<Rightarrow> state \<Rightarrow> state" where
  "pollFolder e drv s =
     (if \<not> isAuthorized s then s
      else
        (case listFiles e drv s of
           (Inl err, s1) \<Rightarrow> s1
         | (Inr newFiles, s1) \<Rightarrow>
             (case detectChanges newFiles s1 of
                (chg, s2) \<Rightarrow>
                  if hasChanges chg
                  then
                    (let s3 = s2\<lparr>fileStore := newFiles\<rparr>;
                         toScan = filter (\<lambda>f. source f = scan) (added chg @ modified chg);
                         s4 = fold startScan toScan s3
                     in emitFileList
                          (length (added chg), length (modified chg), length (deleted chg)) s4)
                  else s2)))"

section \<open>The requests of a client\<close>

definition rescan_file :: "file_id option \<Rightarrow> state \<Rightarrow> state" where
  "rescan_file fileId s =
     (if \<not> truthy fileId then s
      else
        (let i = the fileId;
             s1 = s\<lparr>scanStore := (scanStore s)(i \<mapsto> \<lparr>status = scanning, lastScannedAt = None\<rparr>)\<rparr>;
             s2 = emitFileList (0, 0, 0) s1
         in if i \<notin> scanningJobs s then simulateScan i s2 else s2))"

definition move_file ::
  "env \<Rightarrow> drive \<Rightarrow> iso_time \<Rightarrow> file_id option \<Rightarrow> folder_id option \<Rightarrow> state \<Rightarrow> state" where
  "move_file e drv now fileId targetFolderId s =
     (if \<not> truthy fileId \<or> \<not> truthy targetFolderId
      then s\<lparr>emitted := emitted s @
               [(requester, move_failed fileId ''Missing fileId or targetFolderId'')]\<rparr>
      else if \<not> isAuthorized s
      then s\<lparr>emitted := emitted s @ [(requester, move_failed fileId ''Not authorized'')]\<rparr>
      else
        (case moveFileById e drv now (the fileId) (the targetFolderId) s of
           (result, t) \<Rightarrow>
             if success result
             then emitFileList (0, 0, 0)
                    (t\<lparr>emitted := emitted t @
                        [(all_clients,
                          file_moved (the fileId) (the targetFolderId) (Some (unchanged result)))]\<rparr>)
             else t\<lparr>emitted := emitted t @
                     [(requester, move_failed fileId
                        (case result of
                           failure err \<Rightarrow> if err = [] then ''Move failed'' else err
                         | _ \<Rightarrow> ''Move failed''))]\<rparr>))"

definition delete_file :: "drive \<Rightarrow> file_id option \<Rightarrow> state \<Rightarrow> state" where
  "delete_file drv fileId s =
     (if \<not> truthy fileId then s
      else if \<not> isAuthorized s
      then s\<lparr>emitted := emitted s @ [(requester, delete_failed (the fileId) ''Not authorized'')]\<rparr>
      else
        (let i = the fileId;
             s1 = s\<lparr>driveCalls := driveCalls s @ [delete_call i]\<rparr>
         in case files_delete drv i of
              Inl err \<Rightarrow> s1\<lparr>emitted := emitted s1 @ [(requester, delete_failed i err)]\<rparr>
            | Inr u \<Rightarrow>
                (let s2 = s1\<lparr>fileStore := filter (\<lambda>f. id' f \<noteq> i) (fileStore s1)\<rparr>;
                     s3 = s2\<lparr>scanStore := (scanStore s2)(i := None)\<rparr>;
                     s4 = s3\<lparr>scanningJobs := scanningJobs s3 - {i}\<rparr>;
                     s5 = s4\<lparr>emitted := emitted s4 @ [(all_clients, file_deleted i)]\<rparr>
                 in emitFileList (0, 0, 1) s5)))"

section \<open>The event loop\<close>

text \<open>
  What can happen next: the poll interval elapses, a waiting timer fires (the \<open>k\<close>-th
  of \<^const>\<open>timers\<close>), or a client sends a request. Each carries the answers Drive
  gives while it is handled and the clock readings it takes.
\<close>

datatype input =
    poll_tick drive
  | timer_fires nat drive iso_time iso_time
  | rescan_request "file_id option"
  | move_request "file_id option" "folder_id option" drive iso_time
  | delete_request "file_id option" drive

fun remove_nth :: "nat \<Rightarrow> 'a list \<Rightarrow> 'a list" where
  "remove_nth k [] = []"
| "remove_nth 0 (x # xs) = xs"
| "remove_nth (Suc k) (x # xs) = x # remove_nth k xs"

fun step :: "env \<Rightarrow> input \<Rightarrow> state \<Rightarrow> state" where
  "step e (poll_tick drv) s = pollFolder e drv s"
| "step e (timer_fires k drv now moveNow) s =
     (if k < length (timers s)
      then (case timers s ! k of
              scanning_dwell i \<Rightarrow> scanningElapsed i (s\<lparr>timers := remove_nth k (timers s)\<rparr>)
            | pending_dwell i \<Rightarrow>
                pendingElapsed e drv now moveNow i (s\<lparr>timers := remove_nth k (timers s)\<rparr>))
      else s)"
| "step e (rescan_request fileId) s = rescan_file fileId s"
| "step e (move_request fileId targetFolderId drv now) s =
     move_file e drv now fileId targetFolderId s"
| "step e (delete_request fileId drv) s = delete_file drv fileId s"

definition run :: "env \<Rightarrow> input list \<Rightarrow> state \<Rightarrow> state" where
  "run e inputs s = fold (step e) inputs s"

section \<open>Terms of the properties\<close>

text \<open>How many letters of the target a left-to-right pass over \<open>s\<close> consumes.\<close>

fun greedy_prefix :: "js_string \<Rightarrow> js_string \<Rightarrow> nat" where
  "greedy_prefix [] target = 0"
| "greedy_prefix (c # s) [] = 0"
| "greedy_prefix (c # s) (t # target) =
     (if c = t then Suc (greedy_prefix s target) else greedy_prefix s (t # target))"









text \<open>The ids of a snapshot, and the record a \<^verbatim>\<open>Map\<close> keeps for an id: the last listed.\<close>

definition ids :: "FileRecord list \<Rightarrow> file_id set" where
  "ids xs = id' ` set xs"

definition lookup_id :: "FileRecord list \<Rightarrow> file_id \<Rightarrow> FileRecord option" where
  "lookup_id xs i = find (\<lambda>f. id' f = i) (rev xs)"

text \<open>A differing \<^verbatim>\<open>modifiedTime\<close> or a differing folder.\<close>

definition changed :: "FileRecord \<Rightarrow> FileRecord \<Rightarrow> bool" where
  "changed old new = (modifiedTime old \<noteq> modifiedTime new \<or> source old \<noteq> source new)"

text \<open>The ids \<^const>\<open>detectChanges\<close> does not report: in both snapshots, and not changed.\<close>

definition unchanged_ids :: "FileRecord list \<Rightarrow> FileRecord list \<Rightarrow> file_id set" where
  "unchanged_ids P C =
     {i \<in> ids C. \<exists>old new. lookup_id P i = Some old \<and> lookup_id C i = Some new \<and>
                             \<not> changed old new}"

text \<open>The two tests of the loops of \<^const>\<open>detectChanges\<close>, on an entry of a \<^verbatim>\<open>Map\<close>.\<close>

definition is_added :: "(file_id \<times> FileRecord) list \<Rightarrow> file_id \<times> FileRecord \<Rightarrow> bool" where
  "is_added old entry = (\<not> Map_has old (fst entry))"

definition is_modified :: "(file_id \<times> FileRecord) list \<Rightarrow> file_id \<times> FileRecord \<Rightarrow> bool" where
  "is_modified old entry =
     (case map_of old (fst entry) of
        None \<Rightarrow> False
      | Some oldFile \<Rightarrow> Map_has old (fst entry) \<and> changed oldFile (snd entry))"

text \<open>\<^verbatim>\<open>Array.from(map.values())\<close> in \<^verbatim>\<open>listFiles\<close>: the merged files before the sort.\<close>

definition merge_order :: "FileRecord list \<Rightarrow> FileRecord list \<Rightarrow> FileRecord list" where
  "merge_order scanFiles quarantineFiles =
     map snd (Map_of_entries (map (\<lambda>f. (id' f, f)) (scanFiles @ quarantineFiles)))"

text \<open>
  The order of the claim about the merged snapshot: \<open>a\<close> may stand before \<open>b\<close> when it
  was modified later, or at the same time and its name is not the smaller one.
\<close>

definition claimed_order :: "(js_string \<Rightarrow> js_string \<Rightarrow> int) \<Rightarrow> FileRecord \<Rightarrow> FileRecord \<Rightarrow> bool" where
  "claimed_order lc a b =
     (the (modifiedTime b) < the (modifiedTime a) \<or>
      (modifiedTime a = modifiedTime b \<and> 0 \<le> lc (name a) (name b)))"

text \<open>
  A scan sequence of an id is in flight while one of its two timers waits. The lock does
  its work when an id has at most one sequence in flight, and none unless it is in
  \<^const>\<open>scanningJobs\<close>.
\<close>

definition sequences_in_flight :: "file_id \<Rightarrow> state \<Rightarrow> nat" where
  "sequences_in_flight x s = length (filter (\<lambda>t. timer_file t = x) (timers s))"

definition at_most_one_sequence :: "file_id \<Rightarrow> state \<Rightarrow> bool" where
  "at_most_one_sequence x s =
     (sequences_in_flight x s \<le> (if x \<in> scanningJobs s then 1 else 0))"

fun is_delete_of :: "file_id \<Rightarrow> input \<Rightarrow> bool" where
  "is_delete_of x (delete_request fileId drv) = (fileId = Some x)"
| "is_delete_of x inp = False"

text \<open>The terminal transitions of an id: its \<^verbatim>\<open>scan_complete\<close> events with a final status.\<close>

fun is_terminal :: "file_id \<Rightarrow> audience \<times> message \<Rightarrow> bool" where
  "is_terminal x (a, scan_complete i st) = (i = x \<and> (st = clean \<or> st = infected))"
| "is_terminal x (a, m) = False"

definition terminal_transitions :: "file_id \<Rightarrow> state \<Rightarrow> nat" where
  "terminal_transitions x s = length (filter (is_terminal x) (emitted s))"

section \<open>Sample inputs\<close>

text \<open>
  Concrete files, states, Drive answers and request sequences, on which the theorems
  below are instantiated. The scan folder is \<^verbatim>\<open>S\<close>, the quarantine folder \<^verbatim>\<open>Q\<close>.
\<close>

definition sample_file :: "file_id \<Rightarrow> string \<Rightarrow> int \<Rightarrow> source_tag \<Rightarrow> FileRecord" where
  "sample_file i n t src =
     \<lparr>id' = i, name = units n, mimeType = ''text/plain'', size' = ''12'', modifiedTime = Some t,
      webViewLink = None, webContentLink = None, md5Checksum = None, source = src\<rparr>"

definition sample_state ::
  "FileRecord list \<Rightarrow> (file_id \<rightharpoonup> scan_record) \<Rightarrow> file_id set \<Rightarrow> timer list \<Rightarrow> state" where
  "sample_state fs ss jobs ts =
     \<lparr>fileStore = fs, scanStore = ss, scanningJobs = jobs, isAuthorized = True,
      timers = ts, emitted = [], driveCalls = []\<rparr>"

definition not_scanned :: "file_id \<rightharpoonup> scan_record" where
  "not_scanned = Map.empty"

definition recorded :: "file_id \<Rightarrow> scan_status \<Rightarrow> iso_time option \<Rightarrow> (file_id \<rightharpoonup> scan_record)" where
  "recorded i st t = [i \<mapsto> \<lparr>status = st, lastScannedAt = t\<rparr>]"

definition previous_snapshot :: "FileRecord list" where
  "previous_snapshot =
     [sample_file ''f1'' ''a.txt'' 1000 scan, sample_file ''f2'' ''b.txt'' 2000 scan,
      sample_file ''f3'' ''c.txt'' 3000 scan]"

definition current_snapshot :: "FileRecord list" where
  "current_snapshot =
     [sample_file ''f4'' ''d.txt'' 4000 scan, sample_file ''f2'' ''b.txt'' 2500 scan,
      sample_file ''f1'' ''a.txt'' 1000 scan]"

definition known_clean :: "file_id \<rightharpoonup> scan_record" where
  "known_clean = recorded ''f3'' clean (Some ''2024-01-01T00:00:00.000Z'')"


text \<open>A stand-in for \<^verbatim>\<open>localeCompare\<close>: the order of the code units.\<close>

fun codeUnitCompare :: "js_string \<Rightarrow> js_string \<Rightarrow> int" where
  "codeUnitCompare [] [] = 0"
| "codeUnitCompare [] (y # ys) = -1"
| "codeUnitCompare (x # xs) [] = 1"
| "codeUnitCompare (x # xs) (y # ys) =
     (if x < y then -1 else if y < x then 1 else codeUnitCompare xs ys)"

text \<open>
  \<^verbatim>\<open>toLowerCase\<close> as it acts on a name whose code units are below 256 or the capital
  I with a dot, U+0130 (304): the capitals A to Z and the accented capitals of Latin-1
  move up by 32, U+0130 becomes \<^verbatim>\<open>i\<close> followed by the combining dot U+0307 (775), and
  every other code unit stays.
\<close>

definition lower_unit :: "code_unit \<Rightarrow> js_string" where
  "lower_unit u =
     (if (65 \<le> u \<and> u \<le> 90) \<or> (192 \<le> u \<and> u \<le> 222 \<and> u \<noteq> 215) then [u + 32]
      else if u = 304 then [105, 775]
      else [u])"

definition sample_toLowerCase :: "js_string \<Rightarrow> js_string" where
  "sample_toLowerCase nm = concat (map lower_unit nm)"

definition sample_env :: env where
  "sample_env =
     \<lparr>SCAN_FOLDER_ID = Some ''S'', QUARANTINE_FOLDER_ID = Some ''Q'',
      localeCompare = codeUnitCompare, toLowerCase = sample_toLowerCase\<rparr>"

text \<open>A configuration that names one folder for both roles.\<close>

definition one_folder_env :: env where
  "one_folder_env =
     \<lparr>SCAN_FOLDER_ID = Some ''Q'', QUARANTINE_FOLDER_ID = Some ''Q'',
      localeCompare = codeUnitCompare, toLowerCase = sample_toLowerCase\<rparr>"

text \<open>
  A Drive that holds the files of \<open>loc\<close> (with their parents), moves and deletes them
  when asked, answers \<^verbatim>\<open>File not found\<close> for any other id, and lists no file in any
  folder.
\<close>

definition in_folder :: "file_id \<Rightarrow> folder_id \<Rightarrow> (file_id \<rightharpoonup> folder_id list)" where
  "in_folder i folder = [i \<mapsto> [folder]]"

definition no_files :: "file_id \<rightharpoonup> folder_id list" where
  "no_files = Map.empty"

definition sample_drive :: "(file_id \<rightharpoonup> folder_id list) \<Rightarrow> drive" where
  "sample_drive loc =
     \<lparr>files_list = (\<lambda>folder. Inr []),
      files_get = (\<lambda>i. case loc i of
                          None \<Rightarrow> Inl ''File not found''
                        | Some ps \<Rightarrow> Inr \<lparr>parents = Some ps, meta_name = units ''notes.txt''\<rparr>),
      files_update = (\<lambda>i target removed. case loc i of
                          None \<Rightarrow> Inl ''File not found''
                        | Some ps \<Rightarrow> Inr (Some [target])),
      files_get_metadata = (\<lambda>i. case loc i of
                          None \<Rightarrow> Inl ''File not found''
                        | Some ps \<Rightarrow>
                            Inr \<lparr>df_id = i, df_name = units ''notes.txt'', df_mimeType = ''text/plain'',
                                 df_size = Some ''12'', df_modifiedTime = Some 1000,
                                 df_webViewLink = None, df_webContentLink = None,
                                 df_md5Checksum = None\<rparr>),
      files_delete = (\<lambda>i. case loc i of
                          None \<Rightarrow> Inl ''File not found''
                        | Some ps \<Rightarrow> Inr ())\<rparr>"

text \<open>No file is monitored; then the file \<^verbatim>\<open>f1\<close> in several situations.\<close>

definition nothing_monitored :: state where
  "nothing_monitored = sample_state [] not_scanned {} []"

definition idle_f1 :: state where
  "idle_f1 = sample_state [sample_file ''f1'' ''notes.txt'' 1000 scan] not_scanned {} []"

definition scanned_clean_f1 :: state where
  "scanned_clean_f1 =
     sample_state [sample_file ''f1'' ''notes.txt'' 1000 scan]
       (recorded ''f1'' clean (Some ''2024-05-01T09:00:00.000Z'')) {} []"

definition quarantined_clean :: state where
  "quarantined_clean =
     sample_state [sample_file ''f1'' ''notes.txt'' 1000 quarantine]
       (recorded ''f1'' clean (Some ''2024-05-01T09:00:00.000Z'')) {} []"

definition mid_scan_f1 :: state where
  "mid_scan_f1 =
     sample_state [sample_file ''f1'' ''notes.txt'' 1000 scan] (recorded ''f1'' pending None)
       {''f1''} [pending_dwell ''f1'']"


definition vanished_mid_scan :: state where
  "vanished_mid_scan = sample_state [] (recorded ''f1'' pending None) {''f1''} []"

definition unauthorized_idle :: state where
  "unauthorized_idle =
     \<lparr>fileStore = [sample_file ''f1'' ''notes.txt'' 1000 scan], scanStore = not_scanned,
      scanningJobs = {}, isAuthorized = False, timers = [], emitted = [], driveCalls = []\<rparr>"

text \<open>Request sequences for \<^verbatim>\<open>f1\<close>.\<close>

definition double_rescan :: "input list" where
  "double_rescan = [rescan_request (Some ''f1''), rescan_request (Some ''f1'')]"

definition rescan_delete_rescan :: "input list" where
  "rescan_delete_rescan =
     [rescan_request (Some ''f1''),
      delete_request (Some ''f1'') (sample_drive (in_folder ''f1'' ''S'')),
      rescan_request (Some ''f1'')]"

definition four_timeouts :: "input list" where
  "four_timeouts =
     [timer_fires 0 (sample_drive no_files) ''2024-05-01T10:00:10.000Z'' ''2024-05-01T10:00:10.100Z'',
      timer_fires 0 (sample_drive no_files) ''2024-05-01T10:00:11.000Z'' ''2024-05-01T10:00:11.100Z'',
      timer_fires 0 (sample_drive no_files) ''2024-05-01T10:00:15.000Z'' ''2024-05-01T10:00:15.100Z'',
      timer_fires 0 (sample_drive no_files) ''2024-05-01T10:00:16.000Z'' ''2024-05-01T10:00:16.100Z'']"

section \<open>The verdict and the lower-cased name\<close>

lemma greedy_prefix_Nil2 [simp]: "greedy_prefix s [] = 0"
  by (cases s) simp_all












section \<open>Change detection partitions the ids\<close>

lemma foldl_update_map_of:
  "map_of (foldl (\<lambda>m (k, v). AList.update k v m) m0 es) = map_of m0 ++ map_of (rev es)"
proof (induction es arbitrary: m0)
  case Nil
  then show ?case by simp
next
  case (Cons a es)
  obtain k v where a: "a = (k, v)" by (cases a)
  show ?case
    by (simp add: Cons.IH a update_conv' map_add_upd_left fun_eq_iff map_add_def split: option.splits)
qed

lemma foldl_update_keys:
  "fst ` set (foldl (\<lambda>m (k, v). AList.update k v m) m0 es) = fst ` set m0 \<union> fst ` set es"
proof (induction es arbitrary: m0)
  case Nil
  then show ?case by simp
next
  case (Cons a es)
  obtain k v where a: "a = (k, v)" by (cases a)
  have "fst ` set (AList.update k v m0) = insert k (fst ` set m0)"
    using dom_update [of k v m0] by (simp add: dom_map_of_conv_image_fst)
  then show ?case
    by (simp add: Cons.IH a)
qed

lemma foldl_update_distinct:
  "distinct (map fst m0) \<Longrightarrow>
   distinct (map fst (foldl (\<lambda>m (k, v). AList.update k v m) m0 es))"
proof (induction es arbitrary: m0)
  case Nil
  then show ?case by simp
next
  case (Cons a es)
  obtain k v where a: "a = (k, v)" by (cases a)
  show ?case
    using Cons.prems by (simp add: a Cons.IH distinct_update)
qed

lemma map_of_keyed:
  "map_of (map (\<lambda>f. (key f, f)) xs) i = find (\<lambda>f. key f = i) xs"
  by (induction xs) auto

lemma Map_of_entries_lookup:
  "map_of (Map_of_entries (map (\<lambda>f. (id' f, f)) xs)) i = lookup_id xs i"
  by (simp add: Map_of_entries_def foldl_update_map_of lookup_id_def rev_map map_of_keyed)

lemma Map_of_entries_keys:
  "fst ` set (Map_of_entries (map (\<lambda>f. (id' f, f)) xs)) = id' ` set xs"
  by (simp add: Map_of_entries_def foldl_update_keys image_image)

lemma Map_of_entries_distinct:
  "distinct (map fst (Map_of_entries es))"
  by (simp add: Map_of_entries_def foldl_update_distinct)

lemma Map_has_entries:
  "Map_has (Map_of_entries (map (\<lambda>f. (id' f, f)) xs)) i \<longleftrightarrow> i \<in> id' ` set xs"
  by (simp add: Map_has_def Map_of_entries_keys)

lemma find_SomeD: "find P ys = Some y \<Longrightarrow> y \<in> set ys \<and> P y"
  by (induction ys) (auto split: if_splits)

lemma lookup_id_Some: "lookup_id xs i = Some f \<Longrightarrow> f \<in> set xs \<and> id' f = i"
  using find_SomeD [of "\<lambda>f. id' f = i" "rev xs" f] by (simp add: lookup_id_def)

lemma lookup_id_None: "lookup_id xs i = None \<longleftrightarrow> i \<notin> id' ` set xs"
  by (auto simp: lookup_id_def find_None_iff)

lemma Map_of_entries_entry:
  assumes "(i, f) \<in> set (Map_of_entries (map (\<lambda>f. (id' f, f)) xs))"
  shows "lookup_id xs i = Some f"
  using assms Map_of_entries_distinct [of "map (\<lambda>f. (id' f, f)) xs"]
  by (simp add: Map_of_entries_lookup [symmetric])

lemma is_added_not_modified: "is_added old en \<Longrightarrow> \<not> is_modified old en"
  by (auto simp: is_added_def is_modified_def split: option.splits)

lemma detect_new_step:
  "detect_new old (i, f) (ch, st) =
     (if is_added old (i, f) then (ch\<lparr>added := added ch @ [f], hasChanges := True\<rparr>, st)
      else if is_modified old (i, f)
      then (ch\<lparr>modified := modified ch @ [f], hasChanges := True\<rparr>, st(i := None))
      else (ch, st))"
  by (auto simp: detect_new_def is_added_def is_modified_def changed_def split: option.splits)

lemma detect_old_step:
  "detect_old new (i, f) (ch, st) =
     (if is_added new (i, f)
      then (ch\<lparr>deleted := deleted ch @ [f], hasChanges := True\<rparr>, st(i := None))
      else (ch, st))"
  by (simp add: detect_old_def is_added_def)

lemma fold_detect_new:
  "fold (detect_new old) es (ch, st) =
     (ch\<lparr>added := added ch @ map snd (filter (is_added old) es),
         modified := modified ch @ map snd (filter (is_modified old) es),
         hasChanges := hasChanges ch \<or> (\<exists>en \<in> set es. is_added old en \<or> is_modified old en)\<rparr>,
      \<lambda>k. if k \<in> fst ` set (filter (is_modified old) es) then None else st k)"
proof (induction es arbitrary: ch st)
  case Nil
  then show ?case by simp
next
  case (Cons en es)
  obtain i f where en: "en = (i, f)" by (cases en)
  consider (a) "is_added old (i, f)" | (m) "\<not> is_added old (i, f)" "is_modified old (i, f)"
    | (u) "\<not> is_added old (i, f)" "\<not> is_modified old (i, f)"
    by blast
  then show ?case
  proof cases
    case a
    then have "\<not> is_modified old (i, f)" by (rule is_added_not_modified)
    with a show ?thesis
      by (simp add: en detect_new_step Cons.IH)
  next
    case m
    then show ?thesis
      by (simp add: en detect_new_step Cons.IH fun_eq_iff)
  next
    case u
    then show ?thesis
      by (simp add: en detect_new_step Cons.IH)
  qed
qed

lemma fold_detect_old:
  "fold (detect_old new) es (ch, st) =
     (ch\<lparr>deleted := deleted ch @ map snd (filter (is_added new) es),
         hasChanges := hasChanges ch \<or> (\<exists>en \<in> set es. is_added new en)\<rparr>,
      \<lambda>k. if k \<in> fst ` set (filter (is_added new) es) then None else st k)"
proof (induction es arbitrary: ch st)
  case Nil
  then show ?case by simp
next
  case (Cons en es)
  obtain i f where en: "en = (i, f)" by (cases en)
  show ?case
  proof (cases "is_added new (i, f)")
    case True
    then show ?thesis
      by (simp add: en detect_old_step Cons.IH fun_eq_iff)
  next
    case False
    then show ?thesis
      by (simp add: en detect_old_step Cons.IH)
  qed
qed

lemma detectChanges_eq:
  "detectChanges C s =
     (let newFileMap = Map_of_entries (map (\<lambda>f. (id' f, f)) C);
          oldFileMap = Map_of_entries (map (\<lambda>f. (id' f, f)) (fileStore s));
          a = filter (is_added oldFileMap) newFileMap;
          m = filter (is_modified oldFileMap) newFileMap;
          d = filter (is_added newFileMap) oldFileMap
      in (\<lparr>added = map snd a, modified = map snd m, deleted = map snd d,
           hasChanges = (a \<noteq> [] \<or> m \<noteq> [] \<or> d \<noteq> [])\<rparr>,
          s\<lparr>scanStore := \<lambda>k. if k \<in> fst ` set m \<union> fst ` set d then None
                              else scanStore s k\<rparr>))"
  by (auto simp: detectChanges_def Let_def fold_detect_new fold_detect_old fun_eq_iff
      filter_empty_conv)

lemma entries_id:
  fixes xs :: "FileRecord list"
  shows "en \<in> set (Map_of_entries (map (\<lambda>f. (id' f, f)) xs)) \<Longrightarrow>
   id' (snd en) = fst en \<and> snd en \<in> set xs \<and> lookup_id xs (fst en) = Some (snd en)"
  using Map_of_entries_entry [of "fst en" "snd en" xs] lookup_id_Some [of xs "fst en" "snd en"]
  by simp

lemma entries_map_id:
  fixes xs :: "FileRecord list"
  shows "set es \<subseteq> set (Map_of_entries (map (\<lambda>f. (id' f, f)) xs)) \<Longrightarrow>
   map id' (map snd es) = map fst es"
  using entries_id [of _ xs] by (induction es) auto

lemma is_added_entries:
  fixes xs :: "FileRecord list"
  shows "is_added (Map_of_entries (map (\<lambda>f. (id' f, f)) xs)) en \<longleftrightarrow> fst en \<notin> ids xs"
  by (simp add: is_added_def Map_has_entries ids_def)

lemma is_modified_entries:
  fixes xs :: "FileRecord list"
  shows "is_modified (Map_of_entries (map (\<lambda>f. (id' f, f)) xs)) en \<longleftrightarrow>
     (\<exists>old. lookup_id xs (fst en) = Some old \<and> changed old (snd en))"
  using lookup_id_None [of xs "fst en"]
  by (auto simp: is_modified_def Map_of_entries_lookup Map_has_entries split: option.splits)

lemma filter_entries_fst:
  fixes xs :: "FileRecord list"
  shows "fst ` set (filter Q (Map_of_entries (map (\<lambda>f. (id' f, f)) xs))) =
         {i \<in> ids xs. \<exists>f. lookup_id xs i = Some f \<and> Q (i, f)}"
proof -
  let ?m = "Map_of_entries (map (\<lambda>f. (id' f, f)) xs)"
  have "i \<in> fst ` set (filter Q ?m) \<longleftrightarrow> i \<in> ids xs \<and> (\<exists>f. lookup_id xs i = Some f \<and> Q (i, f))"
    for i
  proof
    assume "i \<in> fst ` set (filter Q ?m)"
    then obtain f where mem: "(i, f) \<in> set ?m" and q: "Q (i, f)"
      by auto
    from entries_id [OF mem] q show "i \<in> ids xs \<and> (\<exists>f. lookup_id xs i = Some f \<and> Q (i, f))"
      by (auto simp: ids_def)
  next
    assume r: "i \<in> ids xs \<and> (\<exists>f. lookup_id xs i = Some f \<and> Q (i, f))"
    then obtain f where l: "lookup_id xs i = Some f" and q: "Q (i, f)"
      by blast
    from l have "map_of ?m i = Some f"
      by (simp add: Map_of_entries_lookup)
    then have "(i, f) \<in> set ?m"
      by (rule map_of_SomeD)
    with q show "i \<in> fst ` set (filter Q ?m)"
      by force
  qed
  then show ?thesis
    by blast
qed

lemma detectChanges_ids:
  fixes C :: "FileRecord list" and s :: state
  defines "chg \<equiv> fst (detectChanges C s)"
  shows "ids (added chg) = {i \<in> ids C. i \<notin> ids (fileStore s)}"
    and "ids (modified chg) =
           {i \<in> ids C. \<exists>old new. lookup_id (fileStore s) i = Some old \<and>
                                   lookup_id C i = Some new \<and> changed old new}"
    and "ids (deleted chg) = {i \<in> ids (fileStore s). i \<notin> ids C}"
    and "distinct (map id' (added chg))"
    and "distinct (map id' (modified chg))"
    and "distinct (map id' (deleted chg))"
    and "set (added chg) \<subseteq> set C"
    and "set (modified chg) \<subseteq> set C"
    and "set (deleted chg) \<subseteq> set (fileStore s)"
proof -
  let ?new = "Map_of_entries (map (\<lambda>f. (id' f, f)) C)"
  let ?old = "Map_of_entries (map (\<lambda>f. (id' f, f)) (fileStore s))"
  have a: "added chg = map snd (filter (is_added ?old) ?new)"
    and m: "modified chg = map snd (filter (is_modified ?old) ?new)"
    and d: "deleted chg = map snd (filter (is_added ?new) ?old)"
    by (simp_all add: chg_def detectChanges_eq Let_def)
  have idmap: "map id' (map snd (filter Q ?new)) = map fst (filter Q ?new)"
    "map id' (map snd (filter Q ?old)) = map fst (filter Q ?old)" for Q
    by (rule entries_map_id [of _ C], simp) (rule entries_map_id [of _ "fileStore s"], simp)
  have idset: "ids (map snd (filter Q ?new)) = fst ` set (filter Q ?new)"
    "ids (map snd (filter Q ?old)) = fst ` set (filter Q ?old)" for Q
    using idmap [of Q] unfolding ids_def by (metis list.set_map)+
  have lk: "i \<in> ids xs \<Longrightarrow> \<exists>f. lookup_id xs i = Some f" for i and xs :: "FileRecord list"
    using lookup_id_None [of xs i] by (auto simp: ids_def)
  show "ids (added chg) = {i \<in> ids C. i \<notin> ids (fileStore s)}"
    unfolding a idset filter_entries_fst using lk [of _ C]
    by (auto simp: is_added_entries)
  show "ids (modified chg) =
           {i \<in> ids C. \<exists>old new. lookup_id (fileStore s) i = Some old \<and>
                                   lookup_id C i = Some new \<and> changed old new}"
    unfolding m idset filter_entries_fst
    by (auto simp: is_modified_entries)
  show "ids (deleted chg) = {i \<in> ids (fileStore s). i \<notin> ids C}"
    unfolding d idset filter_entries_fst using lk [of _ "fileStore s"]
    by (auto simp: is_added_entries)
  show "distinct (map id' (added chg))" "distinct (map id' (modified chg))"
    "distinct (map id' (deleted chg))"
    unfolding a m d idmap
    by (simp_all add: distinct_map_filter Map_of_entries_distinct)
  show "set (added chg) \<subseteq> set C" "set (modified chg) \<subseteq> set C"
    "set (deleted chg) \<subseteq> set (fileStore s)"
    unfolding a m d using entries_id [of _ C] entries_id [of _ "fileStore s"]
    by auto
qed

text \<open>
  C2. For every stored list \<open>P\<close> and every new snapshot \<open>C\<close>, \<^const>\<open>detectChanges\<close>
  reports as added exactly the ids of \<open>C\<close> absent from \<open>P\<close>, as modified exactly the
  ids of \<open>C\<close> present in \<open>P\<close> whose \<^verbatim>\<open>modifiedTime\<close> or folder differs, and as
  deleted exactly the ids of \<open>P\<close> absent from \<open>C\<close>. Every id of \<open>C\<close> is added, modified
  or unchanged, and only one of the three; no id is reported twice.
\<close>

theorem detectChanges_partitions_ids:
  fixes C :: "FileRecord list" and s :: state
  shows
  "(let chg = fst (detectChanges C s); P = fileStore s;
        A = ids (added chg); M = ids (modified chg); D = ids (deleted chg)
    in A = {i \<in> ids C. i \<notin> ids P} \<and>
       M = {i \<in> ids C. \<exists>old new. lookup_id P i = Some old \<and> lookup_id C i = Some new \<and>
                                   changed old new} \<and>
       D = {i \<in> ids P. i \<notin> ids C} \<and>
       A \<union> M \<union> unchanged_ids P C = ids C \<and>
       A \<inter> M = {} \<and> A \<inter> unchanged_ids P C = {} \<and> M \<inter> unchanged_ids P C = {} \<and>
       distinct (map id' (added chg)) \<and> distinct (map id' (modified chg)) \<and>
       distinct (map id' (deleted chg)) \<and>
       set (added chg) \<subseteq> set C \<and> set (modified chg) \<subseteq> set C \<and> set (deleted chg) \<subseteq> set P)"
proof -
  have lk: "i \<in> ids xs \<Longrightarrow> \<exists>f. lookup_id xs i = Some f" for i and xs :: "FileRecord list"
    using lookup_id_None [of xs i] by (auto simp: ids_def)
  have in_ids: "lookup_id xs i = Some f \<Longrightarrow> i \<in> ids xs" for i f and xs :: "FileRecord list"
    using lookup_id_Some [of xs i f] by (auto simp: ids_def)
  note d = detectChanges_ids [of C s]
  have cover: "ids (added (fst (detectChanges C s))) \<union> ids (modified (fst (detectChanges C s)))
        \<union> unchanged_ids (fileStore s) C = ids C"
    unfolding d(1,2) unchanged_ids_def using lk [of _ C] lk [of _ "fileStore s"]
    by (fastforce dest: in_ids)
  have dis: "ids (added (fst (detectChanges C s))) \<inter> ids (modified (fst (detectChanges C s))) = {}"
    "ids (added (fst (detectChanges C s))) \<inter> unchanged_ids (fileStore s) C = {}"
    "ids (modified (fst (detectChanges C s))) \<inter> unchanged_ids (fileStore s) C = {}"
    unfolding d(1,2) unchanged_ids_def by (auto dest: in_ids)
  show ?thesis
    unfolding Let_def using d cover dis by simp
qed

lemma sample_changes:
  "fst (detectChanges current_snapshot (sample_state previous_snapshot known_clean {} [])) =
     \<lparr>added = [sample_file ''f4'' ''d.txt'' 4000 scan],
      modified = [sample_file ''f2'' ''b.txt'' 2500 scan],
      deleted = [sample_file ''f3'' ''c.txt'' 3000 scan],
      hasChanges = True\<rparr>"
  by (simp add: detectChanges_def current_snapshot_def sample_state_def previous_snapshot_def
      Map_of_entries_def sample_file_def detect_new_def detect_old_def Map_has_def)

theorem detectChanges_partitions_ids_witness:
  "ids (added (fst (detectChanges current_snapshot
          (sample_state previous_snapshot known_clean {} [])))) = {''f4''} \<and>
   ids (modified (fst (detectChanges current_snapshot
          (sample_state previous_snapshot known_clean {} [])))) = {''f2''} \<and>
   ids (deleted (fst (detectChanges current_snapshot
          (sample_state previous_snapshot known_clean {} [])))) = {''f3''} \<and>
   unchanged_ids previous_snapshot current_snapshot = {''f1''}"
proof -
  have P: "fileStore (sample_state previous_snapshot known_clean {} []) = previous_snapshot"
    by (simp add: sample_state_def)
  have r1: "{i \<in> ids current_snapshot. i \<notin> ids previous_snapshot} = {''f4''}"
    by (auto simp: ids_def current_snapshot_def previous_snapshot_def sample_file_def)
  have r2: "{i \<in> ids current_snapshot. \<exists>old new. lookup_id previous_snapshot i = Some old \<and>
              lookup_id current_snapshot i = Some new \<and> changed old new} = {''f2''}"
    by (auto simp: ids_def lookup_id_def changed_def current_snapshot_def previous_snapshot_def
        sample_file_def)
  have r3: "{i \<in> ids previous_snapshot. i \<notin> ids current_snapshot} = {''f3''}"
    by (auto simp: ids_def current_snapshot_def previous_snapshot_def sample_file_def)
  have r4: "unchanged_ids previous_snapshot current_snapshot = {''f1''}"
    by (auto simp: unchanged_ids_def ids_def lookup_id_def changed_def current_snapshot_def
        previous_snapshot_def sample_file_def)
  note t = detectChanges_partitions_ids
      [of current_snapshot "sample_state previous_snapshot known_clean {} []",
       unfolded Let_def P]
  from t have a: "ids (added (fst (detectChanges current_snapshot
          (sample_state previous_snapshot known_clean {} [])))) =
        {i \<in> ids current_snapshot. i \<notin> ids previous_snapshot}"
    by (rule conjunct1)
  from t have m: "ids (modified (fst (detectChanges current_snapshot
          (sample_state previous_snapshot known_clean {} [])))) =
        {i \<in> ids current_snapshot. \<exists>old new. lookup_id previous_snapshot i = Some old \<and>
              lookup_id current_snapshot i = Some new \<and> changed old new}"
    by (rule conjunct1 [OF conjunct2])
  from t have d: "ids (deleted (fst (detectChanges current_snapshot
          (sample_state previous_snapshot known_clean {} [])))) =
        {i \<in> ids previous_snapshot. i \<notin> ids current_snapshot}"
    by (rule conjunct1 [OF conjunct2 [OF conjunct2]])
  show ?thesis
    unfolding a m d r1 r2 r3 r4 by simp
qed

text \<open>
  C3, as the code has it. \<^const>\<open>detectChanges\<close> is not free of effects: it deletes
  from \<^const>\<open>scanStore\<close> the record of every id it reports as modified or deleted.
  That is all it changes: the file list, the running scans, the timers and every other
  scan record stay as they were.
\<close>

theorem detectChanges_clears_scanStore:
  fixes C :: "FileRecord list" and s :: state
  shows "snd (detectChanges C s) =
     s\<lparr>scanStore := \<lambda>i. if i \<in> ids (modified (fst (detectChanges C s))) \<union>
                                ids (deleted (fst (detectChanges C s)))
                          then None else scanStore s i\<rparr>"
proof -
  let ?new = "Map_of_entries (map (\<lambda>f. (id' f, f)) C)"
  let ?old = "Map_of_entries (map (\<lambda>f. (id' f, f)) (fileStore s))"
  have m: "ids (modified (fst (detectChanges C s))) = fst ` set (filter (is_modified ?old) ?new)"
    using arg_cong [OF entries_map_id [of "filter (is_modified ?old) ?new" C], of set]
    by (simp add: detectChanges_eq Let_def ids_def image_image)
  have d: "ids (deleted (fst (detectChanges C s))) = fst ` set (filter (is_added ?new) ?old)"
    using arg_cong [OF entries_map_id [of "filter (is_added ?new) ?old" "fileStore s"], of set]
    by (simp add: detectChanges_eq Let_def ids_def image_image)
  show ?thesis
    unfolding m d by (simp add: detectChanges_eq Let_def)
qed

theorem detectChanges_clears_scanStore_witness:
  "scanStore (snd (detectChanges current_snapshot
      (sample_state previous_snapshot known_clean {} []))) = not_scanned \<and>
   fileStore (snd (detectChanges current_snapshot
      (sample_state previous_snapshot known_clean {} []))) = previous_snapshot"
proof -
  have d: "ids (deleted (fst (detectChanges current_snapshot
          (sample_state previous_snapshot known_clean {} [])))) = {''f3''}"
    and m: "ids (modified (fst (detectChanges current_snapshot
          (sample_state previous_snapshot known_clean {} [])))) = {''f2''}"
    by (simp_all add: sample_changes ids_def sample_file_def)
  have "snd (detectChanges current_snapshot (sample_state previous_snapshot known_clean {} [])) =
      (sample_state previous_snapshot known_clean {} [])\<lparr>scanStore :=
         \<lambda>i. if i \<in> {''f2''} \<union> {''f3''} then None
             else scanStore (sample_state previous_snapshot known_clean {} []) i\<rparr>"
    using detectChanges_clears_scanStore
      [of current_snapshot "sample_state previous_snapshot known_clean {} []"]
    unfolding d m .
  then show ?thesis
    by (auto simp: sample_state_def known_clean_def recorded_def not_scanned_def fun_eq_iff)
qed

text \<open>
  C3 as stated fails: a file that was known clean and has left both folders loses its
  scan record in the call.
\<close>

theorem detectChanges_not_pure:
  "scanStore (sample_state previous_snapshot known_clean {} []) ''f3'' =
     Some \<lparr>status = clean, lastScannedAt = Some ''2024-01-01T00:00:00.000Z''\<rparr> \<and>
   scanStore (snd (detectChanges current_snapshot
      (sample_state previous_snapshot known_clean {} []))) ''f3'' = None"
  by (simp add: detectChanges_def current_snapshot_def sample_state_def previous_snapshot_def
      known_clean_def recorded_def not_scanned_def Map_of_entries_def sample_file_def detect_new_def detect_old_def Map_has_def)

section \<open>Moves, the end of a scan, and rescan requests\<close>

text \<open>
  C6. When Drive reports that the parents of the file already include the target folder,
  \<^const>\<open>moveFileById\<close> answers success with \<open>unchanged\<close> set, has asked Drive for the
  parents and for nothing else (no update is sent), and leaves the file list, the scan
  records and all the rest of the state as they were.
\<close>

theorem move_to_current_folder_is_noop:
  assumes "files_get drv fileId = Inr meta"
    and "targetFolderId \<in> set (case parents meta of None \<Rightarrow> [] | Some ps \<Rightarrow> ps)"
  shows "(case moveFileById e drv now fileId targetFolderId s of
            (r, s') \<Rightarrow>
              r = success_unchanged (meta_name meta) \<and> success r \<and> unchanged r \<and>
              fileStore s' = fileStore s \<and> scanStore s' = scanStore s \<and>
              driveCalls s' = driveCalls s @ [get_call fileId] \<and>
              s' = s\<lparr>driveCalls := driveCalls s @ [get_call fileId]\<rparr>)"
  using assms by (simp add: moveFileById_def Let_def)

theorem move_to_current_folder_is_noop_witness:
  "moveFileById sample_env (sample_drive (in_folder ''f1'' ''Q'')) ''2024-05-01T10:00:00.000Z''
      ''f1'' ''Q'' quarantined_clean =
     (success_unchanged (units ''notes.txt''),
      quarantined_clean
        \<lparr>driveCalls := [get_call ''f1'']\<rparr>)"
proof -
  have g: "files_get (sample_drive (in_folder ''f1'' ''Q'')) ''f1'' =
      Inr \<lparr>parents = Some [''Q''], meta_name = units ''notes.txt''\<rparr>"
    by (simp add: sample_drive_def in_folder_def no_files_def)
  have d: "driveCalls quarantined_clean = []"
    by (simp add: quarantined_clean_def recorded_def sample_state_def)
  show ?thesis
    using move_to_current_folder_is_noop [OF g, where targetFolderId = "''Q''"
        and e = sample_env and now = "''2024-05-01T10:00:00.000Z''"
        and s = quarantined_clean]
    by (auto simp: d)
qed

text \<open>
  C8. When the pending dwell of a scan ends and the file id is no longer in
  \<^const>\<open>fileStore\<close>, the verdict is taken over the empty name, which is never flagged:
  the record \<open>clean\<close> with \<open>lastScannedAt = now\<close> is written for the vanished id, the
  event says \<open>clean\<close>, no move is requested from Drive, and the id leaves
  \<^const>\<open>scanningJobs\<close>.
\<close>

theorem vanished_file_is_marked_clean:
  assumes "find (\<lambda>f. id' f = fileId) (fileStore s) = None"
  shows "scanStore (pendingElapsed e drv now moveNow fileId s) fileId =
           Some \<lparr>status = clean, lastScannedAt = Some now\<rparr> \<and>
         \<not> isEicarish e [] \<and> finalStatus e [] = clean \<and>
         (all_clients, scan_complete fileId clean) \<in> set (emitted (pendingElapsed e drv now moveNow fileId s)) \<and>
         driveCalls (pendingElapsed e drv now moveNow fileId s) = driveCalls s \<and>
         fileStore (pendingElapsed e drv now moveNow fileId s) = fileStore s \<and>
         scanningJobs (pendingElapsed e drv now moveNow fileId s) = scanningJobs s - {fileId}"
proof -
  have v: "\<not> isEicarish e []" "finalStatus e [] = clean"
    by (simp_all add: isEicarish_def finalStatus_def)
  show ?thesis
    using assms by (simp add: pendingElapsed_def Let_def v emitFileList_def)
qed

theorem vanished_file_is_marked_clean_witness:
  "scanStore (pendingElapsed sample_env (sample_drive no_files) ''2024-05-01T10:00:00.000Z''
       ''2024-05-01T10:00:01.000Z'' ''f1'' vanished_mid_scan) ''f1'' =
     Some \<lparr>status = clean, lastScannedAt = Some ''2024-05-01T10:00:00.000Z''\<rparr> \<and>
   scanningJobs (pendingElapsed sample_env (sample_drive no_files) ''2024-05-01T10:00:00.000Z''
       ''2024-05-01T10:00:01.000Z'' ''f1'' vanished_mid_scan) = {}"
proof -
  have f: "find (\<lambda>f. id' f = ''f1'') (fileStore vanished_mid_scan) = None"
    by (simp add: vanished_mid_scan_def recorded_def sample_state_def)
  have j: "scanningJobs vanished_mid_scan = {''f1''}"
    by (simp add: vanished_mid_scan_def recorded_def sample_state_def)
  show ?thesis
    using vanished_file_is_marked_clean [OF f, where e = sample_env
        and drv = "sample_drive no_files" and now = "''2024-05-01T10:00:00.000Z''"
        and moveNow = "''2024-05-01T10:00:01.000Z''"]
    by (simp add: j)
qed

lemma restoreToScan_frame:
  "timers (restoreToScan e drv now fileId s) = timers s \<and>
   scanningJobs (restoreToScan e drv now fileId s) = scanningJobs s \<and>
   emitted (restoreToScan e drv now fileId s) = emitted s \<and>
   isAuthorized (restoreToScan e drv now fileId s) = isAuthorized s"
  by (simp add: restoreToScan_def Let_def split: sum.splits option.splits)

lemma moveFileById_frame:
  "timers (snd (moveFileById e drv now fileId target s)) = timers s \<and>
   scanningJobs (snd (moveFileById e drv now fileId target s)) = scanningJobs s \<and>
   emitted (snd (moveFileById e drv now fileId target s)) = emitted s \<and>
   isAuthorized (snd (moveFileById e drv now fileId target s)) = isAuthorized s"
  by (simp add: moveFileById_def Let_def restoreToScan_frame split: sum.splits option.splits)

text \<open>
  C9, as the code has it. With distinct scan and quarantine folders configured, every
  move to the quarantine folder that Drive carried out (the answer with \<open>parents\<close>,
  not the answer \<open>unchanged\<close>) overwrites the scan record of the file with \<open>infected\<close>
  and \<open>lastScannedAt = now\<close>, whatever it was before; so does the manual move
  request that runs it.
\<close>

theorem quarantine_move_marks_infected:
  assumes "QUARANTINE_FOLDER_ID e = Some q" and "q \<noteq> []" and "SCAN_FOLDER_ID e \<noteq> Some q"
    and "moveFileById e drv now fileId q s = (success_moved ps, s')"
  shows "scanStore s' fileId = Some \<lparr>status = infected, lastScannedAt = Some now\<rparr> \<and>
         (isAuthorized s \<and> fileId \<noteq> [] \<longrightarrow>
            scanStore (move_file e drv now (Some fileId) (Some q) s) fileId =
              Some \<lparr>status = infected, lastScannedAt = Some now\<rparr>)"
proof -
  from assms have st: "scanStore s' fileId = Some \<lparr>status = infected, lastScannedAt = Some now\<rparr>"
    by (auto simp: moveFileById_def Let_def split: sum.splits if_splits)
  with assms show ?thesis
    by (simp add: move_file_def emitFileList_def)
qed

theorem quarantine_move_marks_infected_witness:
  "scanStore (snd (moveFileById sample_env (sample_drive (in_folder ''f1'' ''S''))
       ''2024-05-01T10:00:00.000Z'' ''f1'' ''Q''
       scanned_clean_f1))
     ''f1'' = Some \<lparr>status = infected, lastScannedAt = Some ''2024-05-01T10:00:00.000Z''\<rparr>"
proof -
  let ?s = scanned_clean_f1
  let ?m = "moveFileById sample_env (sample_drive (in_folder ''f1'' ''S''))
       ''2024-05-01T10:00:00.000Z'' ''f1'' ''Q'' ?s"
  have q: "QUARANTINE_FOLDER_ID sample_env = Some ''Q''" "''Q'' \<noteq> []"
    "SCAN_FOLDER_ID sample_env \<noteq> Some ''Q''"
    by (simp_all add: sample_env_def)
  have r: "fst ?m = success_moved (Some [''Q''])"
    by (simp add: moveFileById_def sample_drive_def in_folder_def no_files_def sample_env_def Let_def)
  then have m: "?m = (success_moved (Some [''Q'']), snd ?m)"
    by (metis prod.collapse)
  show ?thesis
    using quarantine_move_marks_infected [OF q m] by simp
qed

text \<open>
  C9 as stated fails: a file that is already in the quarantine folder with the verdict
  \<open>clean\<close> is moved to the quarantine folder with success (\<open>unchanged\<close>), the clients
  are told it was moved, and its record stays \<open>clean\<close>. And when the configuration
  names the same folder as scan and as quarantine folder, a move into it that Drive
  carries out ends with the record \<open>clean\<close>: the block for the scan folder runs after
  the block for the quarantine folder.
\<close>

theorem noop_quarantine_move_keeps_status:
  "success (fst (moveFileById sample_env (sample_drive (in_folder ''f1'' ''Q''))
       ''2024-05-01T10:00:00.000Z'' ''f1'' ''Q'' quarantined_clean)) \<and>
   scanStore (snd (moveFileById sample_env (sample_drive (in_folder ''f1'' ''Q''))
       ''2024-05-01T10:00:00.000Z'' ''f1'' ''Q'' quarantined_clean)) ''f1'' =
     Some \<lparr>status = clean, lastScannedAt = Some ''2024-05-01T09:00:00.000Z''\<rparr> \<and>
   (all_clients, file_moved ''f1'' ''Q'' (Some True)) \<in>
     set (emitted (move_file sample_env (sample_drive (in_folder ''f1'' ''Q''))
       ''2024-05-01T10:00:00.000Z'' (Some ''f1'') (Some ''Q'') quarantined_clean)) \<and>
   scanStore (move_file sample_env (sample_drive (in_folder ''f1'' ''Q''))
       ''2024-05-01T10:00:00.000Z'' (Some ''f1'') (Some ''Q'') quarantined_clean) ''f1'' =
     Some \<lparr>status = clean, lastScannedAt = Some ''2024-05-01T09:00:00.000Z''\<rparr> \<and>
   fst (moveFileById one_folder_env (sample_drive (in_folder ''f1'' ''X''))
       ''2024-05-01T10:00:00.000Z'' ''f1'' ''Q'' nothing_monitored) =
     success_moved (Some [''Q'']) \<and>
   scanStore (snd (moveFileById one_folder_env (sample_drive (in_folder ''f1'' ''X''))
       ''2024-05-01T10:00:00.000Z'' ''f1'' ''Q'' nothing_monitored)) ''f1'' =
     Some \<lparr>status = clean, lastScannedAt = Some ''2024-05-01T10:00:00.000Z''\<rparr>"
  by (simp add: moveFileById_def move_file_def restoreToScan_def sample_drive_def in_folder_def
      no_files_def sample_env_def one_folder_env_def Let_def quarantined_clean_def recorded_def
      nothing_monitored_def not_scanned_def sample_state_def emitFileList_def js_sort_def)

lemma filesForClients_cong:
  "fileStore s = fileStore t \<Longrightarrow> scanStore s = scanStore t \<Longrightarrow>
   filesForClients s = filesForClients t"
  by (simp add: filesForClients_def)

text \<open>
  C10. A rescan request that carries a file id is handled whatever the authorization
  flag is: the record of the id becomes \<open>scanning\<close>, the file list is broadcast (once
  when a scan of the id is running, twice when one is started), nothing else is emitted,
  and the handler never reads the flag. A move or delete request for the same id in an
  unauthorized state is answered with \<open>Not authorized\<close> and changes nothing else.
\<close>

theorem rescan_ignores_authorization:
  assumes "i \<noteq> []"
  shows "scanStore (rescan_file (Some i) s) i = Some \<lparr>status = scanning, lastScannedAt = None\<rparr> \<and>
     emitted (rescan_file (Some i) s) =
       emitted s @ replicate (if i \<in> scanningJobs s then 1 else 2)
         (all_clients, file_list (filesForClients (rescan_file (Some i) s)) (0, 0, 0)) \<and>
     rescan_file (Some i) (s\<lparr>isAuthorized := a\<rparr>) = (rescan_file (Some i) s)\<lparr>isAuthorized := a\<rparr> \<and>
     (\<not> isAuthorized s \<and> truthy target \<longrightarrow>
        move_file e drv now (Some i) target s =
          s\<lparr>emitted := emitted s @ [(requester, move_failed (Some i) ''Not authorized'')]\<rparr>) \<and>
     (\<not> isAuthorized s \<longrightarrow>
        delete_file drv (Some i) s =
          s\<lparr>emitted := emitted s @ [(requester, delete_failed i ''Not authorized'')]\<rparr>)"
proof -
  have 1: "scanStore (rescan_file (Some i) s) i = Some \<lparr>status = scanning, lastScannedAt = None\<rparr>"
    using assms by (simp add: rescan_file_def simulateScan_def emitFileList_def Let_def)
  have 2: "emitted (rescan_file (Some i) s) =
       emitted s @ replicate (if i \<in> scanningJobs s then 1 else 2)
         (all_clients, file_list (filesForClients (rescan_file (Some i) s)) (0, 0, 0))"
    using assms
    by (simp add: rescan_file_def simulateScan_def emitFileList_def Let_def filesForClients_def
        numeral_2_eq_2)
  have 3: "rescan_file (Some i) (s\<lparr>isAuthorized := a\<rparr>) = (rescan_file (Some i) s)\<lparr>isAuthorized := a\<rparr>"
    using assms
    by (simp add: rescan_file_def simulateScan_def emitFileList_def Let_def filesForClients_def)
  have 4: "\<not> isAuthorized s \<and> truthy target \<longrightarrow>
        move_file e drv now (Some i) target s =
          s\<lparr>emitted := emitted s @ [(requester, move_failed (Some i) ''Not authorized'')]\<rparr>"
    using assms by (simp add: move_file_def)
  have 5: "\<not> isAuthorized s \<longrightarrow>
        delete_file drv (Some i) s =
          s\<lparr>emitted := emitted s @ [(requester, delete_failed i ''Not authorized'')]\<rparr>"
    using assms by (simp add: delete_file_def)
  from 1 2 3 4 5 show ?thesis
    by blast
qed

theorem rescan_ignores_authorization_witness:
  "scanStore (rescan_file (Some ''f1'') unauthorized_idle) ''f1'' =
     Some \<lparr>status = scanning, lastScannedAt = None\<rparr> \<and>
   emitted (rescan_file (Some ''f1'') unauthorized_idle) =
     replicate 2 (all_clients,
       file_list [(sample_file ''f1'' ''notes.txt'' 1000 scan,
                   \<lparr>status = scanning, lastScannedAt = None\<rparr>)] (0, 0, 0)) \<and>
   emitted (move_file sample_env (sample_drive (in_folder ''f1'' ''S'')) ''2024-05-01T10:00:00.000Z''
       (Some ''f1'') (Some ''Q'') unauthorized_idle) =
     [(requester, move_failed (Some ''f1'') ''Not authorized'')] \<and>
   emitted (delete_file (sample_drive (in_folder ''f1'' ''S'')) (Some ''f1'') unauthorized_idle) =
     [(requester, delete_failed ''f1'' ''Not authorized'')]"
proof -
  have n: "''f1'' \<noteq> []" by simp
  have u: "\<not> isAuthorized unauthorized_idle" "emitted unauthorized_idle = []"
    "''f1'' \<notin> scanningJobs unauthorized_idle"
    by (simp_all add: unauthorized_idle_def not_scanned_def)
  have v: "filesForClients (rescan_file (Some ''f1'') unauthorized_idle) =
      [(sample_file ''f1'' ''notes.txt'' 1000 scan, \<lparr>status = scanning, lastScannedAt = None\<rparr>)]"
    by (simp add: rescan_file_def simulateScan_def emitFileList_def Let_def filesForClients_def
        unauthorized_idle_def not_scanned_def sample_file_def)
  show ?thesis
    using rescan_ignores_authorization [OF n, where s = unauthorized_idle and target = "Some ''Q''"
        and e = sample_env and drv = "sample_drive (in_folder ''f1'' ''S'')"
        and now = "''2024-05-01T10:00:00.000Z''"]
    by (simp add: u v)
qed

section \<open>The merged snapshot\<close>

lemma set_insert_sorted: "set (insert_sorted cmp x ys) = insert x (set ys)"
  by (induction ys) auto

lemma set_js_sort: "set (js_sort cmp xs) = set xs"
  by (induction xs) (simp_all add: js_sort_def set_insert_sorted)

lemma distinct_map_insert_sorted:
  "distinct (map f (insert_sorted cmp x ys)) \<longleftrightarrow> f x \<notin> f ` set ys \<and> distinct (map f ys)"
  by (induction ys) (auto simp: set_insert_sorted)

lemma distinct_map_js_sort: "distinct (map f (js_sort cmp xs)) \<longleftrightarrow> distinct (map f xs)"
proof (induction xs)
  case Nil
  then show ?case by (simp add: js_sort_def)
next
  case (Cons x xs)
  have "js_sort cmp (x # xs) = insert_sorted cmp x (js_sort cmp xs)"
    by (simp add: js_sort_def)
  then show ?case
    using Cons.IH by (simp add: distinct_map_insert_sorted set_js_sort)
qed

lemma insert_sorted_timed:
  assumes "modifiedTime x \<noteq> None" and "\<forall>f \<in> set ys. modifiedTime f \<noteq> None"
  shows "insert_sorted (compareFiles e) x ys = insort_key (\<lambda>f. - the (modifiedTime f)) x ys"
  using assms
proof (induction ys)
  case Nil
  then show ?case by simp
next
  case (Cons y ys)
  then obtain tx ty where t: "modifiedTime x = Some tx" "modifiedTime y = Some ty"
    by auto
  with Cons show ?case
    by (simp add: compareFiles_def)
qed

lemma js_sort_timed:
  assumes "\<forall>f \<in> set xs. modifiedTime f \<noteq> None"
  shows "js_sort (compareFiles e) xs = sort_key (\<lambda>f. - the (modifiedTime f)) xs"
  using assms
proof (induction xs)
  case Nil
  then show ?case by (simp add: js_sort_def)
next
  case (Cons x xs)
  have step: "js_sort (compareFiles e) (x # xs) = insert_sorted (compareFiles e) x (js_sort (compareFiles e) xs)"
    by (simp add: js_sort_def)
  from Cons show ?case
    unfolding step by (simp add: insert_sorted_timed)
qed

lemma find_append_cases:
  "find P (xs @ ys) = (case find P xs of None \<Rightarrow> find P ys | Some x \<Rightarrow> Some x)"
  by (induction xs) auto

lemma lookup_id_append:
  "lookup_id (xs @ ys) i = (case lookup_id ys i of None \<Rightarrow> lookup_id xs i | Some f \<Rightarrow> Some f)"
  unfolding lookup_id_def by (simp add: find_append_cases)

lemma merge_order_member:
  fixes scanFiles quarantineFiles :: "FileRecord list"
  assumes "f \<in> set (merge_order scanFiles quarantineFiles)"
  shows "lookup_id (scanFiles @ quarantineFiles) (id' f) = Some f"
proof -
  from assms obtain en
    where en: "en \<in> set (Map_of_entries (map (\<lambda>f. (id' f, f)) (scanFiles @ quarantineFiles)))"
      and f: "f = snd en"
    by (auto simp: merge_order_def)
  from entries_id [OF en] f show ?thesis
    by simp
qed

lemma merge_order_ids:
  fixes scanFiles quarantineFiles :: "FileRecord list"
  shows "map id' (merge_order scanFiles quarantineFiles) =
         map fst (Map_of_entries (map (\<lambda>f. (id' f, f)) (scanFiles @ quarantineFiles)))"
  unfolding merge_order_def by (rule entries_map_id [of _ "scanFiles @ quarantineFiles"]) (rule subset_refl)

lemma mergeListings_sort: "mergeListings e scanFiles quarantineFiles =
    js_sort (compareFiles e) (merge_order scanFiles quarantineFiles)"
  by (simp add: mergeListings_def merge_order_def)

text \<open>What \<^const>\<open>listFiles\<close> returns when both listings arrive.\<close>

lemma listFiles_merges:
  assumes "listFiles e drv s = (Inr r, t)"
  shows "\<exists>scanListing quarantineListing.
           r = mergeListings e (map (toFile scan) scanListing)
                 (map (toFile quarantine) quarantineListing) \<and>
           (scanListing = [] \<or>
              truthy (SCAN_FOLDER_ID e) \<and>
              files_list drv (the (SCAN_FOLDER_ID e)) = Inr scanListing) \<and>
           (quarantineListing = [] \<or>
              truthy (QUARANTINE_FOLDER_ID e) \<and>
              files_list drv (the (QUARANTINE_FOLDER_ID e)) = Inr quarantineListing)"
proof -
  define first where "first = (if truthy (SCAN_FOLDER_ID e)
            then listFilesInFolder drv (the (SCAN_FOLDER_ID e)) scan s
            else (Inr [], s))"
  obtain r1 s1 where f: "first = (r1, s1)"
    by (cases first)
  define second where "second = (if truthy (QUARANTINE_FOLDER_ID e)
                 then listFilesInFolder drv (the (QUARANTINE_FOLDER_ID e)) quarantine s1
                 else (Inr [], s1))"
  obtain r2 s2 where g: "second = (r2, s2)"
    by (cases second)
  from assms f obtain scanFiles where r1: "r1 = Inr scanFiles"
    by (cases r1) (simp_all add: listFiles_def first_def [symmetric])
  from assms f g r1 obtain quarantineFiles where r2: "r2 = Inr quarantineFiles"
    by (cases r2) (simp_all add: listFiles_def first_def [symmetric] second_def [symmetric])
  from assms f g r1 r2 have r: "r = mergeListings e scanFiles quarantineFiles"
    by (simp add: listFiles_def first_def [symmetric] second_def [symmetric])
  from f r1 obtain scanListing where a: "scanFiles = map (toFile scan) scanListing"
    "scanListing = [] \<or>
       truthy (SCAN_FOLDER_ID e) \<and> files_list drv (the (SCAN_FOLDER_ID e)) = Inr scanListing"
    by (cases "truthy (SCAN_FOLDER_ID e)")
      (auto simp: first_def listFilesInFolder_def Let_def split: sum.splits)
  from g r2 obtain quarantineListing
    where b: "quarantineFiles = map (toFile quarantine) quarantineListing"
    "quarantineListing = [] \<or>
       truthy (QUARANTINE_FOLDER_ID e) \<and>
       files_list drv (the (QUARANTINE_FOLDER_ID e)) = Inr quarantineListing"
    by (cases "truthy (QUARANTINE_FOLDER_ID e)")
      (auto simp: second_def listFilesInFolder_def Let_def split: sum.splits)
  from r a b show ?thesis
    by blast
qed

text \<open>
  C5, as the code has it. For every pair of folder listings the merged snapshot holds
  each id once; the record of an id that the quarantine listing has is the quarantine
  listing's, and otherwise the scan listing's. When every listed file has a
  \<^verbatim>\<open>modifiedTime\<close>, the snapshot is sorted by \<^verbatim>\<open>modifiedTime\<close> descending, and files
  with equal \<^verbatim>\<open>modifiedTime\<close> keep the order of the merge (scan listing first): the
  comparator answers 0 for them and never looks at their names.
\<close>

theorem merged_snapshot_unique_and_sorted_by_time:
  fixes scanFiles quarantineFiles :: "FileRecord list"
  shows
  "(let r = mergeListings e scanFiles quarantineFiles in
     distinct (map id' r) \<and> ids r = ids scanFiles \<union> ids quarantineFiles \<and>
     (\<forall>f \<in> set r. if id' f \<in> ids quarantineFiles
                    then lookup_id quarantineFiles (id' f) = Some f
                    else lookup_id scanFiles (id' f) = Some f) \<and>
     ((\<forall>f \<in> set (scanFiles @ quarantineFiles). modifiedTime f \<noteq> None) \<longrightarrow>
        sorted_wrt (\<lambda>a b. the (modifiedTime b) \<le> the (modifiedTime a)) r \<and>
        (\<forall>t. filter (\<lambda>f. modifiedTime f = Some t) r =
             filter (\<lambda>f. modifiedTime f = Some t) (merge_order scanFiles quarantineFiles))))"
proof -
  let ?m = "merge_order scanFiles quarantineFiles"
  let ?r = "mergeListings e scanFiles quarantineFiles"
  have r: "?r = js_sort (compareFiles e) ?m"
    by (rule mergeListings_sort)
  have 1: "distinct (map id' ?r)"
    unfolding r distinct_map_js_sort merge_order_ids by (rule Map_of_entries_distinct)
  have "ids ?m = ids (scanFiles @ quarantineFiles)"
    using arg_cong [OF merge_order_ids [of scanFiles quarantineFiles], of set]
      Map_of_entries_keys [of "scanFiles @ quarantineFiles"]
    by (simp add: ids_def)
  then have 2: "ids ?r = ids scanFiles \<union> ids quarantineFiles"
    unfolding r by (simp add: ids_def set_js_sort image_Un)
  have 3: "if id' f \<in> ids quarantineFiles
           then lookup_id quarantineFiles (id' f) = Some f
           else lookup_id scanFiles (id' f) = Some f" if "f \<in> set ?r" for f
  proof -
    from that have "f \<in> set ?m"
      by (simp add: r set_js_sort)
    then have l: "lookup_id (scanFiles @ quarantineFiles) (id' f) = Some f"
      by (rule merge_order_member)
    show ?thesis
      using l lookup_id_None [of quarantineFiles "id' f"]
      by (auto simp: lookup_id_append ids_def split: option.splits)
  qed
  have 4: "sorted_wrt (\<lambda>a b. the (modifiedTime b) \<le> the (modifiedTime a)) ?r \<and>
        (\<forall>t. filter (\<lambda>f. modifiedTime f = Some t) ?r = filter (\<lambda>f. modifiedTime f = Some t) ?m)"
    if timed: "\<forall>f \<in> set (scanFiles @ quarantineFiles). modifiedTime f \<noteq> None"
  proof -
    have tm: "\<forall>f \<in> set ?m. modifiedTime f \<noteq> None"
    proof
      fix f assume "f \<in> set ?m"
      from lookup_id_Some [OF merge_order_member [OF this]] timed
      show "modifiedTime f \<noteq> None" by blast
    qed
    let ?k = "\<lambda>f. - the (modifiedTime f)"
    have s: "?r = sort_key ?k ?m"
      unfolding r using tm by (rule js_sort_timed)
    have "sorted (map ?k ?r)"
      unfolding s by (rule sorted_sort_key)
    then have a: "sorted_wrt (\<lambda>a b. the (modifiedTime b) \<le> the (modifiedTime a)) ?r"
      by (simp add: sorted_map)
    have b: "filter (\<lambda>f. modifiedTime f = Some t) ?r = filter (\<lambda>f. modifiedTime f = Some t) ?m"
      for t
    proof -
      have eq: "(modifiedTime f = Some t) = (?k f = - t)" if "f \<in> set ?m" for f
        using tm that by auto
      have "filter (\<lambda>f. modifiedTime f = Some t) ?r = filter (\<lambda>f. ?k f = - t) ?r"
        by (rule filter_cong) (simp_all add: s eq)
      also have "\<dots> = filter (\<lambda>f. ?k f = - t) ?m"
        unfolding s by (rule sort_key_stable)
      also have "\<dots> = filter (\<lambda>f. modifiedTime f = Some t) ?m"
        by (rule filter_cong) (simp_all add: eq)
      finally show ?thesis .
    qed
    from a b show ?thesis by blast
  qed
  from 1 2 3 4 show ?thesis
    unfolding Let_def by blast
qed

theorem merged_snapshot_unique_and_sorted_by_time_witness:
  "mergeListings sample_env
      [sample_file ''f1'' ''a.txt'' 1000 scan, sample_file ''f2'' ''b.txt'' 3000 scan]
      [sample_file ''f1'' ''a.txt'' 2000 quarantine] =
     [sample_file ''f2'' ''b.txt'' 3000 scan, sample_file ''f1'' ''a.txt'' 2000 quarantine] \<and>
   distinct (map id' (mergeListings sample_env
      [sample_file ''f1'' ''a.txt'' 1000 scan, sample_file ''f2'' ''b.txt'' 3000 scan]
      [sample_file ''f1'' ''a.txt'' 2000 quarantine])) \<and>
   sorted_wrt (\<lambda>a b. the (modifiedTime b) \<le> the (modifiedTime a)) (mergeListings sample_env
      [sample_file ''f1'' ''a.txt'' 1000 scan, sample_file ''f2'' ''b.txt'' 3000 scan]
      [sample_file ''f1'' ''a.txt'' 2000 quarantine])"
proof -
  let ?S = "[sample_file ''f1'' ''a.txt'' 1000 scan, sample_file ''f2'' ''b.txt'' 3000 scan]"
  let ?Q = "[sample_file ''f1'' ''a.txt'' 2000 quarantine]"
  have timed: "\<forall>f \<in> set (?S @ ?Q). modifiedTime f \<noteq> None"
    by (simp add: sample_file_def)
  have v: "mergeListings sample_env ?S ?Q =
     [sample_file ''f2'' ''b.txt'' 3000 scan, sample_file ''f1'' ''a.txt'' 2000 quarantine]"
    by (simp add: mergeListings_def Map_of_entries_def js_sort_def compareFiles_def
        sample_file_def sample_env_def)
  note t = merged_snapshot_unique_and_sorted_by_time [of sample_env ?S ?Q, unfolded Let_def]
  from t have d: "distinct (map id' (mergeListings sample_env ?S ?Q))"
    by (rule conjunct1)
  from t timed have
    "sorted_wrt (\<lambda>a b. the (modifiedTime b) \<le> the (modifiedTime a)) (mergeListings sample_env ?S ?Q)"
    by blast
  with v d show ?thesis
    by blast
qed

text \<open>
  C5 as stated fails: a file \<^verbatim>\<open>a.txt\<close> in the scan folder and a file \<^verbatim>\<open>b.txt\<close> in the
  quarantine folder with the same \<^verbatim>\<open>modifiedTime\<close> come out as \<^verbatim>\<open>a.txt\<close>, \<^verbatim>\<open>b.txt\<close>,
  which is not descending by name.
\<close>

theorem equal_times_keep_listing_order:
  "mergeListings sample_env [sample_file ''f1'' ''a.txt'' 1000 scan]
      [sample_file ''f2'' ''b.txt'' 1000 quarantine] =
     [sample_file ''f1'' ''a.txt'' 1000 scan, sample_file ''f2'' ''b.txt'' 1000 quarantine] \<and>
   \<not> sorted_wrt (claimed_order codeUnitCompare)
      (mergeListings sample_env [sample_file ''f1'' ''a.txt'' 1000 scan]
         [sample_file ''f2'' ''b.txt'' 1000 quarantine])"
  by (simp add: mergeListings_def Map_of_entries_def js_sort_def compareFiles_def
      sample_file_def sample_env_def claimed_order_def units_def)

section \<open>One scan sequence per file\<close>

lemma simulateScan_locked: "x \<in> scanningJobs s \<Longrightarrow> simulateScan x s = s"
  by (simp add: simulateScan_def)

lemma at_most_one_cong:
  "timers t = timers s \<Longrightarrow> scanningJobs t = scanningJobs s \<Longrightarrow>
   at_most_one_sequence x t = at_most_one_sequence x s"
  by (simp add: at_most_one_sequence_def sequences_in_flight_def)

lemma at_most_one_upd [simp]:
  "at_most_one_sequence x (s\<lparr>scanStore := ss\<rparr>) = at_most_one_sequence x s"
  "at_most_one_sequence x (s\<lparr>fileStore := fs\<rparr>) = at_most_one_sequence x s"
  "at_most_one_sequence x (s\<lparr>emitted := em\<rparr>) = at_most_one_sequence x s"
  "at_most_one_sequence x (s\<lparr>driveCalls := dc\<rparr>) = at_most_one_sequence x s"
  "at_most_one_sequence x (emitFileList c s) = at_most_one_sequence x s"
  by (simp_all add: at_most_one_sequence_def sequences_in_flight_def emitFileList_def)

lemma simulateScan_fields:
  "timers (simulateScan i s) =
     (if i \<in> scanningJobs s then timers s else timers s @ [scanning_dwell i])"
  "scanningJobs (simulateScan i s) = insert i (scanningJobs s)"
  by (auto simp add: simulateScan_def emitFileList_def Let_def)

lemma simulateScan_keeps:
  assumes "at_most_one_sequence x s"
  shows "at_most_one_sequence x (simulateScan i s)"
proof (cases "i \<in> scanningJobs s")
  case True
  with assms show ?thesis by (simp add: simulateScan_locked)
next
  case False
  with assms show ?thesis
    unfolding at_most_one_sequence_def sequences_in_flight_def simulateScan_fields
    by (cases "i = x") simp_all
qed

lemma startScan_keeps:
  assumes a: "at_most_one_sequence x s"
  shows "at_most_one_sequence x (startScan f s)"
proof (cases "id' f \<in> scanningJobs s")
  case True
  then have "startScan f s = s"
    by (simp add: startScan_def Let_def)
  with a show ?thesis by simp
next
  case False
  let ?s = "s\<lparr>scanStore := (scanStore s)(id' f \<mapsto> \<lparr>status = scanning, lastScannedAt = None\<rparr>)\<rparr>"
  have "at_most_one_sequence x ?s"
    using a by simp
  then have k: "at_most_one_sequence x (simulateScan (id' f) ?s)"
    by (rule simulateScan_keeps)
  from False have "startScan f s = simulateScan (id' f) ?s"
    by (simp add: startScan_def Let_def)
  then show ?thesis
    using k by (simp only:)
qed

lemma fold_startScan_keeps:
  "at_most_one_sequence x s \<Longrightarrow> at_most_one_sequence x (fold startScan fs s)"
proof (induction fs arbitrary: s)
  case Nil
  then show ?case by simp
next
  case (Cons f fs)
  from Cons.prems have "at_most_one_sequence x (startScan f s)"
    by (rule startScan_keeps)
  then have "at_most_one_sequence x (fold startScan fs (startScan f s))"
    by (rule Cons.IH)
  then show ?case by simp
qed

lemma listFilesInFolder_frame:
  "listFilesInFolder drv folder tag s = (r, t) \<Longrightarrow>
   timers t = timers s \<and> scanningJobs t = scanningJobs s \<and> emitted t = emitted s \<and>
   fileStore t = fileStore s \<and> scanStore t = scanStore s"
  by (auto simp: listFilesInFolder_def Let_def split: sum.splits)

lemma listFiles_frame:
  assumes "listFiles e drv s = (r, t)"
  shows "timers t = timers s \<and> scanningJobs t = scanningJobs s \<and> emitted t = emitted s \<and>
   fileStore t = fileStore s \<and> scanStore t = scanStore s"
proof -
  define first where "first = (if truthy (SCAN_FOLDER_ID e)
            then listFilesInFolder drv (the (SCAN_FOLDER_ID e)) scan s
            else (Inr [], s))"
  obtain r1 s1 where f: "first = (r1, s1)"
    by (cases first)
  have f1: "timers s1 = timers s \<and> scanningJobs s1 = scanningJobs s \<and> emitted s1 = emitted s \<and>
      fileStore s1 = fileStore s \<and> scanStore s1 = scanStore s"
  proof (cases "truthy (SCAN_FOLDER_ID e)")
    case True
    with f have "listFilesInFolder drv (the (SCAN_FOLDER_ID e)) scan s = (r1, s1)"
      by (simp add: first_def)
    then show ?thesis by (rule listFilesInFolder_frame)
  next
    case False
    with f show ?thesis by (simp add: first_def)
  qed
  show ?thesis
  proof (cases r1)
    case (Inl err)
    with assms f have "t = s1"
      by (simp add: listFiles_def first_def [symmetric])
    with f1 show ?thesis by simp
  next
    case (Inr scanFiles)
    define second where "second = (if truthy (QUARANTINE_FOLDER_ID e)
                 then listFilesInFolder drv (the (QUARANTINE_FOLDER_ID e)) quarantine s1
                 else (Inr [], s1))"
    obtain r2 s2 where g: "second = (r2, s2)"
      by (cases second)
    have f2: "timers s2 = timers s1 \<and> scanningJobs s2 = scanningJobs s1 \<and>
        emitted s2 = emitted s1 \<and> fileStore s2 = fileStore s1 \<and> scanStore s2 = scanStore s1"
    proof (cases "truthy (QUARANTINE_FOLDER_ID e)")
      case True
      with g have "listFilesInFolder drv (the (QUARANTINE_FOLDER_ID e)) quarantine s1 = (r2, s2)"
        by (simp add: second_def)
      then show ?thesis by (rule listFilesInFolder_frame)
    next
      case False
      with g show ?thesis by (simp add: second_def)
    qed
    from assms f Inr g have "t = s2"
      by (simp add: listFiles_def first_def [symmetric] second_def [symmetric] split: sum.splits)
    with f1 f2 show ?thesis by simp
  qed
qed

lemma detectChanges_frame:
  "detectChanges C s = (chg, t) \<Longrightarrow>
   timers t = timers s \<and> scanningJobs t = scanningJobs s \<and> emitted t = emitted s \<and>
   fileStore t = fileStore s"
  by (auto simp: detectChanges_def Let_def)

lemma pollFolder_keeps:
  assumes "at_most_one_sequence x s"
  shows "at_most_one_sequence x (pollFolder e drv s)"
proof (cases "isAuthorized s")
  case False
  with assms show ?thesis by (simp add: pollFolder_def)
next
  case True
  obtain r s1 where l: "listFiles e drv s = (r, s1)"
    by (cases "listFiles e drv s")
  from listFiles_frame [OF l] have "at_most_one_sequence x s1 = at_most_one_sequence x s"
    by (intro at_most_one_cong) simp_all
  with assms have a1: "at_most_one_sequence x s1"
    by simp
  show ?thesis
  proof (cases r)
    case (Inl err)
    with True l a1 show ?thesis by (simp add: pollFolder_def)
  next
    case (Inr newFiles)
    obtain chg s2 where d: "detectChanges newFiles s1 = (chg, s2)"
      by (cases "detectChanges newFiles s1")
    from detectChanges_frame [OF d] have "at_most_one_sequence x s2 = at_most_one_sequence x s1"
      by (intro at_most_one_cong) simp_all
    with a1 have a2: "at_most_one_sequence x s2"
      by simp
    then have a3: "at_most_one_sequence x (s2\<lparr>fileStore := newFiles\<rparr>)"
      by simp
    with True l Inr d a2 show ?thesis
      by (simp add: pollFolder_def Let_def fold_startScan_keeps)
  qed
qed

lemma moveFileById_frame':
  assumes "moveFileById e drv now fileId target s = (r, t)"
  shows "timers t = timers s" "scanningJobs t = scanningJobs s" "emitted t = emitted s"
  using moveFileById_frame [of e drv now fileId target s] assms by simp_all

lemma length_filter_remove_nth:
  "k < length xs \<Longrightarrow>
   length (filter P xs) = length (filter P (remove_nth k xs)) + (if P (xs ! k) then 1 else 0)"
  by (induction k xs rule: remove_nth.induct) auto

lemma pendingElapsed_fields:
  "timers (pendingElapsed e drv now moveNow i s) = timers s"
  "scanningJobs (pendingElapsed e drv now moveNow i s) = scanningJobs s - {i}"
  by (simp_all add: pendingElapsed_def Let_def emitFileList_def moveFileById_frame'
      split: prod.splits)

lemma scanningElapsed_fields:
  "timers (scanningElapsed i s) = timers s @ [pending_dwell i]"
  "scanningJobs (scanningElapsed i s) = scanningJobs s"
  by (simp_all add: scanningElapsed_def Let_def emitFileList_def)

lemma at_most_one_unlock_other:
  "i \<noteq> x \<Longrightarrow>
   at_most_one_sequence x (s\<lparr>scanningJobs := scanningJobs s - {i}\<rparr>) = at_most_one_sequence x s"
  by (simp add: at_most_one_sequence_def sequences_in_flight_def)

lemma timer_fires_keeps:
  assumes a: "at_most_one_sequence x s"
  shows "at_most_one_sequence x (step e (timer_fires k drv now moveNow) s)"
proof (cases "k < length (timers s)")
  case False
  with a show ?thesis by simp
next
  case True
  note cnt = length_filter_remove_nth [OF True, of "\<lambda>t. timer_file t = x"]
  show ?thesis
  proof (cases "timers s ! k")
    case (scanning_dwell i)
    with True a cnt show ?thesis
      by (auto simp: at_most_one_sequence_def sequences_in_flight_def scanningElapsed_fields
          split: if_splits)
  next
    case (pending_dwell i)
    with True a cnt show ?thesis
      by (auto simp: at_most_one_sequence_def sequences_in_flight_def pendingElapsed_fields
          split: if_splits)
  qed
qed

lemma rescan_file_keeps:
  assumes a: "at_most_one_sequence x s"
  shows "at_most_one_sequence x (rescan_file fileId s)"
proof (cases "truthy fileId")
  case False
  with a show ?thesis by (simp add: rescan_file_def)
next
  case True
  let ?s2 = "emitFileList (0, 0, 0)
      (s\<lparr>scanStore := (scanStore s)(the fileId \<mapsto> \<lparr>status = scanning, lastScannedAt = None\<rparr>)\<rparr>)"
  from a have b: "at_most_one_sequence x ?s2"
    by simp
  then have "at_most_one_sequence x (simulateScan (the fileId) ?s2)"
    by (rule simulateScan_keeps)
  with b True show ?thesis
    by (simp add: rescan_file_def Let_def)
qed

lemma move_file_keeps:
  assumes a: "at_most_one_sequence x s"
  shows "at_most_one_sequence x (move_file e drv now fileId target s)"
proof -
  obtain r t where m: "moveFileById e drv now (the fileId) (the target) s = (r, t)"
    by (cases "moveFileById e drv now (the fileId) (the target) s")
  have "at_most_one_sequence x t = at_most_one_sequence x s"
    using moveFileById_frame' [OF m] by (intro at_most_one_cong) simp_all
  with a m show ?thesis
    by (simp add: move_file_def)
qed

lemma delete_file_keeps:
  assumes a: "at_most_one_sequence x s" and n: "fileId \<noteq> Some x"
  shows "at_most_one_sequence x (delete_file drv fileId s)"
proof (cases "truthy fileId \<and> isAuthorized s")
  case False
  with a show ?thesis by (auto simp: delete_file_def)
next
  case True
  with n have "the fileId \<noteq> x"
    by (cases fileId) auto
  with a True show ?thesis
    unfolding at_most_one_sequence_def sequences_in_flight_def
    by (auto simp: delete_file_def Let_def emitFileList_def split: sum.splits if_splits)
qed

lemma step_keeps:
  assumes "at_most_one_sequence x s" and "\<not> is_delete_of x inp"
  shows "at_most_one_sequence x (step e inp s)"
proof (cases inp)
  case (poll_tick drv)
  with assms show ?thesis by (simp add: pollFolder_keeps)
next
  case (timer_fires k drv now moveNow)
  with assms timer_fires_keeps [of x s e k drv now moveNow] show ?thesis by simp
next
  case (rescan_request fileId)
  with assms show ?thesis by (simp add: rescan_file_keeps)
next
  case (move_request fileId target drv now)
  with assms show ?thesis by (simp add: move_file_keeps)
next
  case (delete_request fileId drv)
  with assms show ?thesis by (simp add: delete_file_keeps)
qed

lemma run_keeps:
  assumes "at_most_one_sequence x s" and "\<forall>inp \<in> set inputs. \<not> is_delete_of x inp"
  shows "at_most_one_sequence x (run e inputs s)"
  using assms unfolding run_def
proof (induction inputs arbitrary: s)
  case Nil
  then show ?case by simp
next
  case (Cons inp inputs)
  then have "at_most_one_sequence x (step e inp s)"
    by (simp add: step_keeps)
  with Cons show ?case by simp
qed

lemma finalStatus_terminal: "finalStatus e nm = clean \<or> finalStatus e nm = infected"
  by (simp add: finalStatus_def)

lemma pendingElapsed_terminal:
  "terminal_transitions x (pendingElapsed e drv now moveNow x s) = terminal_transitions x s + 1"
  using finalStatus_terminal [of e "case find (\<lambda>f. id' f = x) (fileStore s) of
      Some f \<Rightarrow> name f | None \<Rightarrow> []"]
  by (auto simp: terminal_transitions_def pendingElapsed_def Let_def emitFileList_def
      moveFileById_frame' split: prod.splits)

lemma scanningElapsed_terminal:
  "terminal_transitions x (scanningElapsed i s) = terminal_transitions x s"
  by (simp add: terminal_transitions_def scanningElapsed_def Let_def emitFileList_def)

lemma simulateScan_terminal:
  "terminal_transitions x (simulateScan i s) = terminal_transitions x s"
  by (simp add: terminal_transitions_def simulateScan_def Let_def emitFileList_def)

lemma remove_nth_last: "remove_nth (length xs) (xs @ [t]) = xs"
  by (induction xs) simp_all

lemma terminal_transitions_timers [simp]:
  "terminal_transitions x (s\<lparr>timers := ts\<rparr>) = terminal_transitions x s"
  by (simp add: terminal_transitions_def)

text \<open>
  The guard of \<^const>\<open>simulateScan\<close>, away from delete requests. A call for an id that is
  in \<^const>\<open>scanningJobs\<close> returns at once and starts nothing. As long as no delete
  request for the id is handled, at most one scan sequence of the id is in flight,
  whatever polls, timers and requests come in between. Two calls in a row for an idle
  id start one sequence, and when its two dwells have ended it has made exactly one
  terminal transition and released the id.
\<close>

theorem scan_sequences_exclusive_without_delete:
  "(x \<in> scanningJobs s \<longrightarrow> simulateScan x s = s) \<and>
   (at_most_one_sequence x s \<and> (\<forall>inp \<in> set inputs. \<not> is_delete_of x inp) \<longrightarrow>
      at_most_one_sequence x (run e inputs s)) \<and>
   (x \<notin> scanningJobs s \<longrightarrow>
      (let s2 = simulateScan x (simulateScan x s);
           k = length (timers s);
           s3 = step e (timer_fires k drv now moveNow) s2;
           s4 = step e (timer_fires k drv' now' moveNow') s3
       in timers s2 = timers s @ [scanning_dwell x] \<and>
          timers s3 = timers s @ [pending_dwell x] \<and>
          timers s4 = timers s \<and>
          terminal_transitions x s3 = terminal_transitions x s \<and>
          terminal_transitions x s4 = terminal_transitions x s + 1 \<and>
          x \<notin> scanningJobs s4))"
proof (intro conjI impI)
  assume "x \<in> scanningJobs s"
  then show "simulateScan x s = s" by (rule simulateScan_locked)
next
  assume "at_most_one_sequence x s \<and> (\<forall>inp \<in> set inputs. \<not> is_delete_of x inp)"
  then show "at_most_one_sequence x (run e inputs s)"
    by (simp add: run_keeps)
next
  assume idle: "x \<notin> scanningJobs s"
  define s1 where "s1 = simulateScan x s"
  define s2 where "s2 = simulateScan x s1"
  define k where "k = length (timers s)"
  define s3 where "s3 = step e (timer_fires k drv now moveNow) s2"
  define s4 where "s4 = step e (timer_fires k drv' now' moveNow') s3"
  have t1: "timers s1 = timers s @ [scanning_dwell x]" and j1: "x \<in> scanningJobs s1"
    using idle by (simp_all add: s1_def simulateScan_fields)
  from j1 have e2: "s2 = s1"
    by (simp add: s2_def simulateScan_locked)
  have t2: "timers s2 = timers s @ [scanning_dwell x]"
    by (simp add: e2 t1)
  have tt2: "terminal_transitions x s2 = terminal_transitions x s"
    by (simp add: e2 s1_def simulateScan_terminal)
  have s3: "s3 = scanningElapsed x (s2\<lparr>timers := timers s\<rparr>)"
    by (simp add: s3_def k_def t2 remove_nth_last)
  have t3: "timers s3 = timers s @ [pending_dwell x]"
    by (simp add: s3 scanningElapsed_fields)
  have tt3: "terminal_transitions x s3 = terminal_transitions x s"
    by (simp add: s3 scanningElapsed_terminal tt2)
  have s4: "s4 = pendingElapsed e drv' now' moveNow' x (s3\<lparr>timers := timers s\<rparr>)"
    by (simp add: s4_def k_def t3 remove_nth_last)
  have t4: "timers s4 = timers s"
    by (simp add: s4 pendingElapsed_fields)
  have tt4: "terminal_transitions x s4 = terminal_transitions x s + 1"
    by (simp add: s4 pendingElapsed_terminal tt3)
  have j4: "x \<notin> scanningJobs s4"
    by (simp add: s4 pendingElapsed_fields)
  from t2 t3 t4 tt3 tt4 j4
  show "let s2 = simulateScan x (simulateScan x s);
           k = length (timers s);
           s3 = step e (timer_fires k drv now moveNow) s2;
           s4 = step e (timer_fires k drv' now' moveNow') s3
       in timers s2 = timers s @ [scanning_dwell x] \<and>
          timers s3 = timers s @ [pending_dwell x] \<and>
          timers s4 = timers s \<and>
          terminal_transitions x s3 = terminal_transitions x s \<and>
          terminal_transitions x s4 = terminal_transitions x s + 1 \<and>
          x \<notin> scanningJobs s4"
    unfolding Let_def s1_def s2_def k_def s3_def s4_def by blast
qed

section \<open>A delete or a poll in the middle of a scan\<close>

lemma run_append: "run e (xs @ ys) s = run e ys (run e xs s)"
  by (simp add: run_def)

lemma first_timer_scanning:
  "timers s = scanning_dwell i # ts \<Longrightarrow>
   step e (timer_fires 0 drv now moveNow) s = scanningElapsed i (s\<lparr>timers := ts\<rparr>)"
  by simp

lemma first_timer_pending:
  "timers s = pending_dwell i # ts \<Longrightarrow>
   step e (timer_fires 0 drv now moveNow) s =
     pendingElapsed e drv now moveNow i (s\<lparr>timers := ts\<rparr>)"
  by simp

lemma double_rescan_run:
  "timers (run sample_env double_rescan idle_f1) = [scanning_dwell ''f1''] \<and>
   scanningJobs (run sample_env double_rescan idle_f1) = {''f1''}"
  by (simp add: run_def double_rescan_def idle_f1_def not_scanned_def sample_state_def rescan_file_def
      simulateScan_def emitFileList_def Let_def)

theorem scan_sequences_exclusive_without_delete_witness:
  "at_most_one_sequence ''f1'' (run sample_env double_rescan idle_f1) \<and>
   sequences_in_flight ''f1'' (run sample_env double_rescan idle_f1) = 1 \<and>
   simulateScan ''f1'' (run sample_env double_rescan idle_f1) = run sample_env double_rescan idle_f1 \<and>
   terminal_transitions ''f1''
     (step sample_env
        (timer_fires 0 (sample_drive (in_folder ''f1'' ''S''))
           ''2024-05-01T10:00:15.000Z'' ''2024-05-01T10:00:15.100Z'')
        (step sample_env
           (timer_fires 0 (sample_drive (in_folder ''f1'' ''S''))
              ''2024-05-01T10:00:10.000Z'' ''2024-05-01T10:00:10.100Z'')
           (simulateScan ''f1'' (simulateScan ''f1'' idle_f1)))) = 1"
proof -
  have i: "at_most_one_sequence ''f1'' idle_f1"
    by (simp add: at_most_one_sequence_def sequences_in_flight_def idle_f1_def sample_state_def)
  have n: "\<forall>inp \<in> set double_rescan. \<not> is_delete_of ''f1'' inp"
    by (simp add: double_rescan_def)
  have u: "''f1'' \<notin> scanningJobs idle_f1" "length (timers idle_f1) = 0"
    "terminal_transitions ''f1'' idle_f1 = 0"
    by (simp_all add: idle_f1_def sample_state_def terminal_transitions_def)
  note t = scan_sequences_exclusive_without_delete
    [where x = "''f1''" and e = sample_env and inputs = double_rescan]
  from t [where s = idle_f1] i n
  have a: "at_most_one_sequence ''f1'' (run sample_env double_rescan idle_f1)"
    by blast
  have l: "''f1'' \<in> scanningJobs (run sample_env double_rescan idle_f1)"
    by (simp add: double_rescan_run)
  from t [where s = "run sample_env double_rescan idle_f1"] l
  have b: "simulateScan ''f1'' (run sample_env double_rescan idle_f1) =
      run sample_env double_rescan idle_f1"
    by blast
  have c: "sequences_in_flight ''f1'' (run sample_env double_rescan idle_f1) = 1"
    by (simp add: sequences_in_flight_def double_rescan_run)
  from t [where s = idle_f1 and drv = "sample_drive (in_folder ''f1'' ''S'')"
      and now = "''2024-05-01T10:00:10.000Z''" and moveNow = "''2024-05-01T10:00:10.100Z''"
      and drv' = "sample_drive (in_folder ''f1'' ''S'')"
      and now' = "''2024-05-01T10:00:15.000Z''" and moveNow' = "''2024-05-01T10:00:15.100Z''",
      unfolded Let_def u] u(1)
  have d: "terminal_transitions ''f1''
     (step sample_env
        (timer_fires 0 (sample_drive (in_folder ''f1'' ''S''))
           ''2024-05-01T10:00:15.000Z'' ''2024-05-01T10:00:15.100Z'')
        (step sample_env
           (timer_fires 0 (sample_drive (in_folder ''f1'' ''S''))
              ''2024-05-01T10:00:10.000Z'' ''2024-05-01T10:00:10.100Z'')
           (simulateScan ''f1'' (simulateScan ''f1'' idle_f1)))) = 0 + 1"
    by blast
  from a b c d show ?thesis by simp
qed

lemma rescan_delete_rescan_timers:
  "timers (run sample_env rescan_delete_rescan idle_f1) =
     [scanning_dwell ''f1'', scanning_dwell ''f1'']"
  by (simp add: run_def rescan_delete_rescan_def idle_f1_def not_scanned_def sample_state_def rescan_file_def
      simulateScan_def emitFileList_def Let_def delete_file_def sample_drive_def in_folder_def no_files_def)

lemma rescan_delete_rescan_terminal:
  "terminal_transitions ''f1'' (run sample_env rescan_delete_rescan idle_f1) = 0"
  by (simp add: terminal_transitions_def run_def rescan_delete_rescan_def idle_f1_def not_scanned_def
      sample_state_def rescan_file_def simulateScan_def emitFileList_def Let_def
      delete_file_def sample_drive_def in_folder_def no_files_def)

text \<open>
  C4 on the code: a rescan request, a delete request and a second rescan request for
  the same id, then the four timers. The delete request takes the id out of
  \<^const>\<open>scanningJobs\<close> while the timer of the running sequence is still waiting, so
  the second rescan request passes the guard of \<^const>\<open>simulateScan\<close> and starts a
  second sequence. Two sequences of the id are then in flight, and the two calls end
  in two terminal transitions, where the guard is there to keep it to one.
\<close>

theorem delete_during_scan_starts_second_sequence:
  "sequences_in_flight ''f1'' (run sample_env rescan_delete_rescan idle_f1) = 2 \<and>
   \<not> at_most_one_sequence ''f1'' (run sample_env rescan_delete_rescan idle_f1) \<and>
   terminal_transitions ''f1'' (run sample_env rescan_delete_rescan idle_f1) = 0 \<and>
   terminal_transitions ''f1'' (run sample_env (rescan_delete_rescan @ four_timeouts) idle_f1) = 2"
proof -
  define s0 where "s0 = run sample_env rescan_delete_rescan idle_f1"
  define s1 where "s1 = scanningElapsed ''f1'' (s0\<lparr>timers := [scanning_dwell ''f1'']\<rparr>)"
  define s2 where "s2 = scanningElapsed ''f1'' (s1\<lparr>timers := [pending_dwell ''f1'']\<rparr>)"
  define s3 where "s3 = pendingElapsed sample_env (sample_drive no_files)
      ''2024-05-01T10:00:15.000Z'' ''2024-05-01T10:00:15.100Z'' ''f1''
      (s2\<lparr>timers := [pending_dwell ''f1'']\<rparr>)"
  define s4 where "s4 = pendingElapsed sample_env (sample_drive no_files)
      ''2024-05-01T10:00:16.000Z'' ''2024-05-01T10:00:16.100Z'' ''f1'' (s3\<lparr>timers := []\<rparr>)"
  have t0: "timers s0 = [scanning_dwell ''f1'', scanning_dwell ''f1'']"
    unfolding s0_def by (rule rescan_delete_rescan_timers)
  have t1: "timers s1 = [scanning_dwell ''f1'', pending_dwell ''f1'']"
    by (simp add: s1_def scanningElapsed_fields)
  have t2: "timers s2 = [pending_dwell ''f1'', pending_dwell ''f1'']"
    by (simp add: s2_def scanningElapsed_fields)
  have t3: "timers s3 = [pending_dwell ''f1'']"
    by (simp add: s3_def pendingElapsed_fields)
  have r1: "step sample_env (timer_fires 0 (sample_drive no_files)
      ''2024-05-01T10:00:10.000Z'' ''2024-05-01T10:00:10.100Z'') s0 = s1"
    unfolding s1_def by (rule first_timer_scanning [OF t0])
  have r2: "step sample_env (timer_fires 0 (sample_drive no_files)
      ''2024-05-01T10:00:11.000Z'' ''2024-05-01T10:00:11.100Z'') s1 = s2"
    unfolding s2_def by (rule first_timer_scanning [OF t1])
  have r3: "step sample_env (timer_fires 0 (sample_drive no_files)
      ''2024-05-01T10:00:15.000Z'' ''2024-05-01T10:00:15.100Z'') s2 = s3"
    unfolding s3_def by (rule first_timer_pending [OF t2])
  have r4: "step sample_env (timer_fires 0 (sample_drive no_files)
      ''2024-05-01T10:00:16.000Z'' ''2024-05-01T10:00:16.100Z'') s3 = s4"
    unfolding s4_def by (rule first_timer_pending [OF t3])
  have r: "run sample_env (rescan_delete_rescan @ four_timeouts) idle_f1 = s4"
    unfolding run_append s0_def [symmetric]
    by (simp only: run_def four_timeouts_def fold_simps r1 r2 r3 r4)
  have c0: "terminal_transitions ''f1'' s0 = 0"
    unfolding s0_def by (rule rescan_delete_rescan_terminal)
  have c4: "terminal_transitions ''f1'' s4 = 2"
    by (simp add: s4_def s3_def s2_def s1_def pendingElapsed_terminal scanningElapsed_terminal c0)
  have 1: "sequences_in_flight ''f1'' s0 = 2"
    by (simp add: sequences_in_flight_def t0)
  then have 2: "\<not> at_most_one_sequence ''f1'' s0"
    by (simp add: at_most_one_sequence_def)
  from 1 2 c0 c4 r show ?thesis
    unfolding s0_def by simp
qed

lemma startScan_scanningJobs: "scanningJobs s \<subseteq> scanningJobs (startScan f s)"
  by (auto simp: startScan_def Let_def simulateScan_fields)

lemma fold_startScan_scanningJobs: "scanningJobs s \<subseteq> scanningJobs (fold startScan fs s)"
proof (induction fs arbitrary: s)
  case Nil
  then show ?case by simp
next
  case (Cons f fs)
  have "scanningJobs s \<subseteq> scanningJobs (startScan f s)"
    by (rule startScan_scanningJobs)
  also have "\<dots> \<subseteq> scanningJobs (fold startScan fs (startScan f s))"
    by (rule Cons.IH)
  finally show ?case by simp
qed

lemma pollFolder_never_unlocks: "scanningJobs s \<subseteq> scanningJobs (pollFolder e drv s)"
proof (cases "isAuthorized s")
  case False
  then show ?thesis by (simp add: pollFolder_def)
next
  case True
  obtain r s1 where l: "listFiles e drv s = (r, s1)"
    by (cases "listFiles e drv s")
  from listFiles_frame [OF l] have j1: "scanningJobs s1 = scanningJobs s"
    by simp
  show ?thesis
  proof (cases r)
    case (Inl err)
    with True l j1 show ?thesis by (simp add: pollFolder_def)
  next
    case (Inr newFiles)
    obtain chg s2 where d: "detectChanges newFiles s1 = (chg, s2)"
      by (cases "detectChanges newFiles s1")
    from detectChanges_frame [OF d] j1 have j2: "scanningJobs s2 = scanningJobs s"
      by simp
    have "scanningJobs s \<subseteq> scanningJobs (fold startScan fs (s2\<lparr>fileStore := newFiles\<rparr>))" for fs
      using fold_startScan_scanningJobs [of "s2\<lparr>fileStore := newFiles\<rparr>" fs] j2 by simp
    from this [of "filter (\<lambda>f. source f = scan) (added chg @ modified chg)"]
      True l Inr d j2 show ?thesis
      by (simp add: pollFolder_def Let_def emitFileList_def del: filter_append)
  qed
qed

text \<open>
  C7 on the code: a file is in the middle of a scan when a poll finds it in neither
  folder. The poll removes the file and its scan record, but the id stays in
  \<^const>\<open>scanningJobs\<close>; the delete request of a client, for the same state, takes it
  out.
\<close>

theorem poll_deletion_keeps_activity_lock:
  "fileStore (pollFolder sample_env (sample_drive no_files) mid_scan_f1) = [] \<and>
   scanStore (pollFolder sample_env (sample_drive no_files) mid_scan_f1) ''f1'' = None \<and>
   ''f1'' \<in> scanningJobs (pollFolder sample_env (sample_drive no_files) mid_scan_f1) \<and>
   ''f1'' \<notin> scanningJobs (delete_file (sample_drive (in_folder ''f1'' ''S'')) (Some ''f1'')
              mid_scan_f1)"
proof -
  have l: "listFiles sample_env (sample_drive no_files) mid_scan_f1 =
      (Inr [], mid_scan_f1\<lparr>driveCalls := [list_call ''S'', list_call ''Q'']\<rparr>)"
    by (simp add: listFiles_def listFilesInFolder_def sample_env_def sample_drive_def in_folder_def no_files_def
        mid_scan_f1_def sample_state_def mergeListings_def Map_of_entries_def js_sort_def)
  have d: "detectChanges [] (mid_scan_f1\<lparr>driveCalls := [list_call ''S'', list_call ''Q'']\<rparr>) =
      (\<lparr>added = [], modified = [], deleted = [sample_file ''f1'' ''notes.txt'' 1000 scan],
        hasChanges = True\<rparr>,
       mid_scan_f1\<lparr>driveCalls := [list_call ''S'', list_call ''Q''], scanStore := Map.empty\<rparr>)"
    by (simp add: detectChanges_def Map_of_entries_def detect_old_def Map_has_def
        mid_scan_f1_def sample_state_def recorded_def sample_file_def)
  have a: "isAuthorized mid_scan_f1" "''f1'' \<in> scanningJobs mid_scan_f1"
    by (simp_all add: mid_scan_f1_def sample_state_def)
  have p: "fileStore (pollFolder sample_env (sample_drive no_files) mid_scan_f1) = [] \<and>
   scanStore (pollFolder sample_env (sample_drive no_files) mid_scan_f1) ''f1'' = None \<and>
   ''f1'' \<in> scanningJobs (pollFolder sample_env (sample_drive no_files) mid_scan_f1)"
    by (simp add: pollFolder_def l d a emitFileList_def Let_def)
  have q: "''f1'' \<notin> scanningJobs (delete_file (sample_drive (in_folder ''f1'' ''S'')) (Some ''f1'')
              mid_scan_f1)"
    by (simp add: delete_file_def a sample_drive_def in_folder_def no_files_def Let_def emitFileList_def)
  from p q show ?thesis by blast
qed

section \<open>The verdict of a scan sequence\<close>









end
